theory Spec2Isabelle
  imports Main
begin

section \<open>Strings as the scraper uses them\<close>

text \<open>
  JavaScript strings are modelled as \<open>string\<close> (character lists). Only the string
  operations the scraper calls are modelled: \<open>startsWith\<close>, \<open>trim\<close> (ASCII white
  space), \<open>substring(0, n)\<close>, \<open>toLowerCase\<close> (ASCII letters) and the \<open>a || b\<close>
  idiom on strings, where the empty string is falsy.
\<close>

definition startsWith :: "string \<Rightarrow> string \<Rightarrow> bool" where
  "startsWith s p = (take (length p) s = p)"

definition isSpace :: "char \<Rightarrow> bool" where
  "isSpace c = (c = CHR '' '' \<or> c = CHR 0x09 \<or> c = CHR 0x0A \<or> c = CHR 0x0B
     \<or> c = CHR 0x0C \<or> c = CHR 0x0D)"

definition trim :: "string \<Rightarrow> string" where
  "trim s = rev (dropWhile isSpace (rev (dropWhile isSpace s)))"

definition or_str :: "string \<Rightarrow> string \<Rightarrow> string" where
  "or_str a b = (if a = [] then b else a)"

text \<open>\<open>attr(name) || fallback\<close>: a missing attribute and an empty one both fall through.\<close>

definition attr_or :: "string option \<Rightarrow> string \<Rightarrow> string" where
  "attr_or a b = (case a of None \<Rightarrow> b | Some v \<Rightarrow> or_str v b)"

text \<open>\<open>attr(name) || undefined\<close>.\<close>

definition attr_or_undefined :: "string option \<Rightarrow> string option" where
  "attr_or_undefined a = (case a of None \<Rightarrow> None | Some v \<Rightarrow> (if v = [] then None else Some v))"

definition lower_char :: "char \<Rightarrow> char" where
  "lower_char c = (let n = (of_char c :: nat) in if 65 \<le> n \<and> n \<le> 90 then char_of (n + 32) else c)"

definition toLowerCase :: "string \<Rightarrow> string" where
  "toLowerCase s = map lower_char s"

section \<open>The URL interface and the parsed document\<close>

text \<open>
  The scraper calls the platform's URL class in two ways: \<open>new URL(href, base).href\<close>
  (which throws on input it cannot resolve) and \<open>new URL(base).origin\<close>. The class is
  not part of the repository, so both calls are parameters of the model. \<open>resolve\<close>
  returns \<open>None\<close> where the constructor throws. \<open>origin\<close> is only ever called on
  a base against which a \<open>resolve\<close> has just succeeded, where the constructor cannot
  throw, so it is a total function here.
\<close>

record url_api =
  resolve :: "string \<Rightarrow> string \<Rightarrow> string option"
  origin :: "string \<Rightarrow> string"

text \<open>
  The HTML parser (cheerio) is a library as well. A parsed document is given by what the
  scraper reads from it: the text of \<open>title\<close>, the text of the first \<open>h1\<close>, and the
  \<open>a\<close> elements in document order with the attributes and children the scraper looks at.
\<close>

record img =
  img_alt :: "string option"
  img_title :: "string option"

record element =
  el_href :: "string option"
  el_text :: string
  el_title :: "string option"
  el_imgs :: "img list"

record document =
  doc_title :: string
  doc_h1 :: string
  doc_anchors :: "element list"

text \<open>The selector \<open>a[href]\<close>: the anchors that carry an href attribute.\<close>

definition select_a_href :: "document \<Rightarrow> element list" where
  "select_a_href d = filter (\<lambda>e. el_href e \<noteq> None) (doc_anchors d)"

record ScrapedLink =
  l_href :: string
  l_text :: string
  l_isExternal :: bool
  l_title :: "string option"

section \<open>extractLinks\<close>

text \<open>
  One round of the \<open>each\<close> callback of \<open>extractLinks\<close>: an early \<open>return\<close> leaves
  \<open>links\<close> as it is, otherwise one record is pushed.
\<close>

definition extractLinks_each :: "url_api \<Rightarrow> string \<Rightarrow> ScrapedLink list \<Rightarrow> element \<Rightarrow> ScrapedLink list" where
  "extractLinks_each api baseUrl links el =
     (let linkText = trim (el_text el) in
      case el_href el of
        None \<Rightarrow> links
      | Some href \<Rightarrow>
          if href = [] \<or> startsWith href ''javascript:'' \<or> href = ''#'' then links
          else (case resolve api href baseUrl of
                  None \<Rightarrow> links
                | Some absoluteUrl \<Rightarrow>
                    (let isExternal = (\<not> startsWith absoluteUrl (origin api baseUrl)) in
                     links @ [\<lparr>l_href = absoluteUrl, l_text = or_str linkText ''Link'',
                               l_isExternal = isExternal,
                               l_title = attr_or_undefined (el_title el)\<rparr>])))"

definition extractLinks :: "url_api \<Rightarrow> document \<Rightarrow> string \<Rightarrow> ScrapedLink list" where
  "extractLinks api html baseUrl = foldl (extractLinks_each api baseUrl) [] (select_a_href html)"

text \<open>
  The notions the statement about the extractor is phrased in. \<open>dropped\<close> is the test
  the loop makes: the href is missing or empty, is \<open>#\<close>, starts with the characters
  \<open>javascript:\<close>, or does not resolve against the base.
\<close>

definition dropped :: "url_api \<Rightarrow> string \<Rightarrow> element \<Rightarrow> bool" where
  "dropped api baseUrl el =
     (case el_href el of
        None \<Rightarrow> True
      | Some href \<Rightarrow>
          href = [] \<or> href = ''#'' \<or> startsWith href ''javascript:''
          \<or> resolve api href baseUrl = None)"

text \<open>
  A \<open>javascript:\<close> pseudo-URL as a browser reads the attribute: control characters
  and spaces in front are dropped, tabs and line breaks are removed, and the scheme is
  compared without regard to letter case. \<open>skipped\<close> is the rule with this reading:
  the href is missing or empty, is \<open>#\<close>, is a \<open>javascript:\<close> pseudo-URL, or does not
  resolve against the base. \<open>link_of\<close> is the record for an anchor that is kept.
\<close>

definition url_clean :: "string \<Rightarrow> string" where
  "url_clean s =
     filter (\<lambda>c. c \<noteq> CHR 0x09 \<and> c \<noteq> CHR 0x0A \<and> c \<noteq> CHR 0x0D)
       (dropWhile (\<lambda>c. (of_char c :: nat) \<le> 32) s)"

definition is_javascript_url :: "string \<Rightarrow> bool" where
  "is_javascript_url href = startsWith (toLowerCase (url_clean href)) ''javascript:''"

definition skipped :: "url_api \<Rightarrow> string \<Rightarrow> element \<Rightarrow> bool" where
  "skipped api baseUrl el =
     (case el_href el of
        None \<Rightarrow> True
      | Some href \<Rightarrow>
          href = [] \<or> href = ''#'' \<or> is_javascript_url href
          \<or> resolve api href baseUrl = None)"

definition resolved :: "url_api \<Rightarrow> string \<Rightarrow> element \<Rightarrow> string" where
  "resolved api baseUrl el =
     (case el_href el of
        None \<Rightarrow> []
      | Some href \<Rightarrow> (case resolve api href baseUrl of None \<Rightarrow> [] | Some u \<Rightarrow> u))"

definition link_of :: "url_api \<Rightarrow> string \<Rightarrow> element \<Rightarrow> ScrapedLink" where
  "link_of api baseUrl el =
     \<lparr>l_href = resolved api baseUrl el,
      l_text = or_str (trim (el_text el)) ''Link'',
      l_isExternal = (\<not> startsWith (resolved api baseUrl el) (origin api baseUrl)),
      l_title = attr_or_undefined (el_title el)\<rparr>"

section \<open>scrapePage\<close>

text \<open>
  \<open>scrapePage\<close> fetches the page and extracts title and links. The HTTP client is a
  parameter: \<open>fetch url\<close> is \<open>Inl message\<close> when the request throws (network error,
  timeout, non-2xx status) and \<open>Inr document\<close> otherwise. Every exception inside the
  \<open>try\<close> is rethrown as \<open>Failed to scrape page: message\<close>. The description and the
  response metadata of the result are not modelled: nothing that is persisted reads them.
\<close>

record ScrapedPage =
  sp_url :: string
  sp_title :: string
  sp_links :: "ScrapedLink list"

definition scrapePage_each :: "url_api \<Rightarrow> string \<Rightarrow> ScrapedLink list \<Rightarrow> element \<Rightarrow> ScrapedLink list" where
  "scrapePage_each api url links el =
     (let linkText = trim (el_text el) in
      case el_href el of
        None \<Rightarrow> links
      | Some href \<Rightarrow>
          if href = [] \<or> startsWith href ''javascript:'' \<or> href = ''#'' then links
          else (case resolve api href url of
                  None \<Rightarrow> links
                | Some absoluteUrl \<Rightarrow>
                    (let linkName0 =
                           (if linkText = [] then
                              (case el_imgs el of
                                 i # _ \<Rightarrow> attr_or (img_alt i) (attr_or (img_title i) ''Image Link'')
                               | [] \<Rightarrow> attr_or (el_title el) ''Link'')
                            else linkText);
                         linkName =
                           (if length linkName0 > 200 then take 197 linkName0 @ ''...''
                            else linkName0);
                         isExternal = (\<not> startsWith absoluteUrl (origin api url))
                     in links @ [\<lparr>l_href = absoluteUrl, l_text = or_str linkName ''Link'',
                                  l_isExternal = isExternal,
                                  l_title = attr_or_undefined (el_title el)\<rparr>])))"

definition scrapePage ::
  "url_api \<Rightarrow> (string \<Rightarrow> string + document) \<Rightarrow> string \<Rightarrow> nat option \<Rightarrow> string + ScrapedPage" where
  "scrapePage api fetch url maxLinks =
     (case fetch url of
        Inl message \<Rightarrow> Inl (''Failed to scrape page: '' @ message)
      | Inr doc \<Rightarrow>
          (let title = or_str (doc_title doc) (or_str (doc_h1 doc) ''Untitled'');
               links = foldl (scrapePage_each api url) [] (select_a_href doc);
               limitedLinks =
                 (case maxLinks of
                    None \<Rightarrow> links
                  | Some n \<Rightarrow> if n = 0 then links else take n links)
           in Inr \<lparr>sp_url = url, sp_title = trim title, sp_links = limitedLinks\<rparr>))"

section \<open>The Page and Link store\<close>

text \<open>
  The two tables the scraper works on, with the columns it reads and writes. Timestamps
  and the ids of Link rows are left out: no code path under study reads them. The
  database fills \<open>title\<close> with NULL and \<open>linkCount\<close> with 0 when a page is created.
\<close>

datatype status = PENDING | PROCESSING | COMPLETED | FAILED

record page =
  p_id :: string
  p_url :: string
  p_title :: "string option"
  p_status :: status
  p_linkCount :: nat
  p_userId :: string

record link =
  k_url :: string
  k_name :: string
  k_isExternal :: bool
  k_pageId :: string

record db =
  pages :: "page list"
  links :: "link list"

definition page_findUnique :: "db \<Rightarrow> string \<Rightarrow> page option" where
  "page_findUnique d pid = find (\<lambda>p. p_id p = pid) (pages d)"

definition page_findFirst :: "db \<Rightarrow> (page \<Rightarrow> bool) \<Rightarrow> page option" where
  "page_findFirst d wh = find wh (pages d)"

text \<open>\<open>update\<close> throws when no row has the id; otherwise it returns the updated row.\<close>

definition page_update :: "db \<Rightarrow> string \<Rightarrow> (page \<Rightarrow> page) \<Rightarrow> string + (page \<times> db)" where
  "page_update d pid f =
     (case page_findUnique d pid of
        None \<Rightarrow> Inl ''Record to update not found.''
      | Some p \<Rightarrow>
          Inr (f p, d\<lparr>pages := map (\<lambda>q. if p_id q = pid then f q else q) (pages d)\<rparr>))"

text \<open>\<open>create\<close>: the id is the freshly generated primary key; a clash is refused.\<close>

definition page_create :: "db \<Rightarrow> string \<Rightarrow> string \<Rightarrow> string \<Rightarrow> status \<Rightarrow> string + (page \<times> db)" where
  "page_create d newId url userId st =
     (case page_findUnique d newId of
        Some _ \<Rightarrow> Inl ''Unique constraint failed on the fields: (id)''
      | None \<Rightarrow>
          (let p = \<lparr>p_id = newId, p_url = url, p_title = None, p_status = st,
                    p_linkCount = 0, p_userId = userId\<rparr>
           in Inr (p, d\<lparr>pages := pages d @ [p]\<rparr>)))"

text \<open>Deleting a page deletes its links (ON DELETE CASCADE).\<close>

definition page_delete :: "db \<Rightarrow> string \<Rightarrow> db" where
  "page_delete d pid =
     \<lparr>pages = filter (\<lambda>p. p_id p \<noteq> pid) (pages d),
      links = filter (\<lambda>k. k_pageId k \<noteq> pid) (links d)\<rparr>"

definition link_createMany :: "db \<Rightarrow> link list \<Rightarrow> db" where
  "link_createMany d rows = d\<lparr>links := links d @ rows\<rparr>"


subsection \<open>Interactive transactions\<close>

text \<open>
  \<open>prisma.$transaction(async (tx) => ...)\<close> runs its callback on a private view of the
  database. Calls on \<open>tx\<close> read and write that view; every other client, the HTTP
  routes among them, reads the committed database. When the callback returns, the view is
  committed as a whole; when it throws, the view is dropped. A store is the committed
  database together with the view of the open transaction, if one is open.
\<close>

record store =
  committed :: db
  txv :: "db option"

definition tx_begin :: "store \<Rightarrow> store" where
  "tx_begin s = s\<lparr>txv := Some (committed s)\<rparr>"

definition tx_view :: "store \<Rightarrow> db" where
  "tx_view s = (case txv s of Some t \<Rightarrow> t | None \<Rightarrow> committed s)"

definition tx_put :: "store \<Rightarrow> db \<Rightarrow> store" where
  "tx_put s t = s\<lparr>txv := Some t\<rparr>"

definition tx_commit :: "store \<Rightarrow> store" where
  "tx_commit s = \<lparr>committed = tx_view s, txv = None\<rparr>"

definition tx_rollback :: "store \<Rightarrow> store" where
  "tx_rollback s = s\<lparr>txv := None\<rparr>"

section \<open>The scraping worker\<close>

record job =
  j_name :: string
  j_pageId :: string
  j_url :: string
  j_userId :: string
  j_attempts :: nat
  j_backoff_delay :: nat

text \<open>
  A run of the worker's job handler. \<open>r_result\<close> is the value the handler returns
  (\<open>Inr\<close>) or the error it throws (\<open>Inl\<close>); \<open>r_db\<close> is the committed database when it
  does; \<open>r_trail\<close> lists the store after each statement of the handler, oldest first;
  \<open>r_fetch\<close> is the store in which the HTTP request ran, if the handler got that far.
\<close>

record run =
  r_result :: "string + page"
  r_db :: db
  r_trail :: "store list"
  r_fetch :: "store option"

text \<open>
  The \<open>catch\<close> block: outside any transaction, mark the page failed if it still exists.
  An error of this update is caught and logged.
\<close>

definition mark_failed :: "db \<Rightarrow> string \<Rightarrow> db" where
  "mark_failed d pageId =
     (case page_findUnique d pageId of
        Some existingPage \<Rightarrow>
          (case page_update d pageId
                  (\<lambda>p. p\<lparr>p_status := FAILED, p_title := Some ''Scraping Failed''\<rparr>) of
             Inr (_, d') \<Rightarrow> d'
           | Inl updateError \<Rightarrow> d)
      | None \<Rightarrow> d)"

definition on_error :: "string \<Rightarrow> string \<Rightarrow> store \<Rightarrow> store list \<Rightarrow> store option \<Rightarrow> run" where
  "on_error pageId err s trail fetched =
     (let s1 = tx_rollback s;
          s2 = s1\<lparr>committed := mark_failed (committed s1) pageId\<rparr>
      in \<lparr>r_result = Inl err, r_db = committed s2, r_trail = trail @ [s1, s2],
          r_fetch = fetched\<rparr>)"

definition linkData_of :: "string \<Rightarrow> ScrapedLink list \<Rightarrow> link list" where
  "linkData_of pageId ls =
     map (\<lambda>l. \<lparr>k_url = l_href l, k_name = l_text l, k_isExternal = l_isExternal l,
               k_pageId = pageId\<rparr>) ls"

text \<open>The row as the success path writes it.\<close>

definition completed_with :: "ScrapedPage \<Rightarrow> page \<Rightarrow> page" where
  "completed_with sp p = p\<lparr>p_title := Some (sp_title sp), p_status := COMPLETED,
                              p_linkCount := length (sp_links sp)\<rparr>"

definition scraperWorker ::
  "url_api \<Rightarrow> (string \<Rightarrow> string + document) \<Rightarrow> db \<Rightarrow> job \<Rightarrow> run" where
  "scraperWorker api fetch d job =
     (let pageId = j_pageId job; url = j_url job;
          s0 = tx_begin \<lparr>committed = d, txv = None\<rparr>
      in case page_findUnique (tx_view s0) pageId of
           None \<Rightarrow> on_error pageId ''Page not found'' s0 [s0] None
         | Some existingPage \<Rightarrow>
             (case page_update (tx_view s0) pageId (\<lambda>p. p\<lparr>p_status := PROCESSING\<rparr>) of
                Inl e \<Rightarrow> on_error pageId e s0 [s0] None
              | Inr (_, t1) \<Rightarrow>
                  (let s1 = tx_put s0 t1 in
                   case scrapePage api fetch url None of
                     Inl e \<Rightarrow> on_error pageId e s1 [s0, s1] (Some s1)
                   | Inr scrapedData \<Rightarrow>
                       (case page_update (tx_view s1) pageId (completed_with scrapedData) of
                          Inl e \<Rightarrow> on_error pageId e s1 [s0, s1] (Some s1)
                        | Inr (updatedPage, t2) \<Rightarrow>
                            (let s2 = tx_put s1 t2;
                                 linkData = linkData_of pageId (sp_links scrapedData);
                                 s3 = (if length linkData > 0
                                       then tx_put s2 (link_createMany (tx_view s2) linkData)
                                       else s2);
                                 s4 = tx_commit s3
                             in \<lparr>r_result = Inr updatedPage, r_db = committed s4,
                                 r_trail = [s0, s1, s2, s3, s4], r_fetch = Some s1\<rparr>)))))"

text \<open>What a reader outside the transaction can see while the handler runs.\<close>

definition observable :: "run \<Rightarrow> db list" where
  "observable r = map committed (r_trail r)"

subsection \<open>The queue\<close>

text \<open>
  \<open>addScrapingJob\<close> hands the queue a job named \<open>scrape-page\<close> that carries the
  page id, the URL and the user id, with three attempts and exponential backoff from two
  seconds. This is the job it builds; \<open>queue_add\<close> below is the handing over.
\<close>

definition addScrapingJob :: "string \<Rightarrow> string \<Rightarrow> string \<Rightarrow> job" where
  "addScrapingJob pageId url userId =
     \<lparr>j_name = ''scrape-page'', j_pageId = pageId, j_url = url, j_userId = userId,
      j_attempts = 3, j_backoff_delay = 2000\<rparr>"

datatype job_state = JobCompleted page | JobFailed string

record job_outcome =
  o_state :: job_state
  o_attemptsMade :: nat
  o_db :: db

text \<open>
  Modelled from the spec: the retry loop itself belongs to the queue library (BullMQ),
  which is not among the repository's files. Section 4.4 of the spec has each job
  attempted up to N times (3 by default), an attempt counting as failed when the handler
  throws, and section 4.3 has each redelivery run the whole handler again. The
  environment may answer each attempt differently: \<open>fetch n\<close> is the HTTP client during
  attempt number \<open>n\<close>. \<open>left\<close> counts the attempts still allowed after the current one.
\<close>

fun attempt_loop ::
  "url_api \<Rightarrow> (nat \<Rightarrow> string \<Rightarrow> string + document) \<Rightarrow> job \<Rightarrow> nat \<Rightarrow> nat \<Rightarrow> db \<Rightarrow> job_outcome" where
  "attempt_loop api fetch job 0 made d =
     (let r = scraperWorker api (fetch made) d job in
      case r_result r of
        Inr p \<Rightarrow> \<lparr>o_state = JobCompleted p, o_attemptsMade = Suc made, o_db = r_db r\<rparr>
      | Inl e \<Rightarrow> \<lparr>o_state = JobFailed e, o_attemptsMade = Suc made, o_db = r_db r\<rparr>)"
| "attempt_loop api fetch job (Suc left) made d =
     (let r = scraperWorker api (fetch made) d job in
      case r_result r of
        Inr p \<Rightarrow> \<lparr>o_state = JobCompleted p, o_attemptsMade = Suc made, o_db = r_db r\<rparr>
      | Inl e \<Rightarrow> attempt_loop api fetch job left (Suc made) (r_db r))"

definition process_job ::
  "url_api \<Rightarrow> (nat \<Rightarrow> string \<Rightarrow> string + document) \<Rightarrow> job \<Rightarrow> db \<Rightarrow> job_outcome" where
  "process_job api fetch job d = attempt_loop api fetch job (j_attempts job - 1) 0 d"

section \<open>The page routes\<close>

text \<open>
  The routes read and write the committed database through their own client and hand
  jobs to the queue. The authenticated user id comes from the auth middleware and the
  list of validation errors from the validator middleware; both are inputs here.
\<close>

datatype body =
    Errors "string list"
  | Error string
  | Created string page
  | Message string

record response =
  res_status :: nat
  res_body :: body

record server =
  sv_db :: db
  sv_queue :: "job list"
  sv_queue_up :: bool

text \<open>
  Adding to the queue is a call to the queue's store over the network. \<open>sv_queue_up\<close>
  says whether that store can be reached; when it cannot, the call rejects and nothing is
  enqueued.
\<close>

definition queue_add :: "server \<Rightarrow> job \<Rightarrow> string + server" where
  "queue_add sv j =
     (if sv_queue_up sv then Inr (sv\<lparr>sv_queue := sv_queue sv @ [j]\<rparr>)
      else Inl ''Connection is closed.'')"

record create_request =
  rq_errors :: "string list"
  rq_url :: string
  rq_userId :: string

text \<open>\<open>POST /\<close>: create a page and start scraping. \<open>newId\<close> is the id the database
  generates for the new row. The row is written before the job is added; when adding the
  job rejects, the \<open>catch\<close> answers 500 and the row stays.\<close>

definition post_pages :: "string \<Rightarrow> create_request \<Rightarrow> server \<Rightarrow> response \<times> server" where
  "post_pages newId req sv =
     (if rq_errors req \<noteq> [] then (\<lparr>res_status = 400, res_body = Errors (rq_errors req)\<rparr>, sv)
      else
        (let url = rq_url req in
         case page_findFirst (sv_db sv) (\<lambda>p. p_url p = url \<and> p_userId p = rq_userId req) of
           Some existingPage \<Rightarrow>
             (\<lparr>res_status = 400,
               res_body = Error ''This URL has already been added for scraping''\<rparr>, sv)
         | None \<Rightarrow>
             (case page_create (sv_db sv) newId url (rq_userId req) PENDING of
                Inl e \<Rightarrow> (\<lparr>res_status = 500, res_body = Error ''Failed to create page''\<rparr>, sv)
              | Inr (page, d') \<Rightarrow>
                  (case queue_add (sv\<lparr>sv_db := d'\<rparr>)
                          (addScrapingJob (p_id page) url (rq_userId req)) of
                     Inl e \<Rightarrow>
                       (\<lparr>res_status = 500, res_body = Error ''Failed to create page''\<rparr>,
                        sv\<lparr>sv_db := d'\<rparr>)
                   | Inr sv' \<Rightarrow>
                       (\<lparr>res_status = 201,
                         res_body = Created ''Page scraping started'' page\<rparr>, sv')))))"

text \<open>\<open>POST /:id/retry\<close>. The status is written before the job is added; when adding
  the job rejects, the \<open>catch\<close> answers 500 and the status written stays.\<close>

definition post_retry :: "string \<Rightarrow> string \<Rightarrow> server \<Rightarrow> response \<times> server" where
  "post_retry ident userId sv =
     (case page_findFirst (sv_db sv) (\<lambda>p. p_id p = ident \<and> p_userId p = userId) of
        None \<Rightarrow> (\<lparr>res_status = 404, res_body = Error ''Page not found''\<rparr>, sv)
      | Some page \<Rightarrow>
          if p_status page \<noteq> FAILED
          then (\<lparr>res_status = 400, res_body = Error ''Only failed pages can be retried''\<rparr>, sv)
          else
            (case page_update (sv_db sv) ident (\<lambda>p. p\<lparr>p_status := PENDING\<rparr>) of
               Inl e \<Rightarrow>
                 (\<lparr>res_status = 500, res_body = Error ''Failed to retry page scraping''\<rparr>, sv)
             | Inr (_, d') \<Rightarrow>
                 (case queue_add (sv\<lparr>sv_db := d'\<rparr>)
                         (addScrapingJob (p_id page) (p_url page) userId) of
                    Inl e \<Rightarrow>
                      (\<lparr>res_status = 500, res_body = Error ''Failed to retry page scraping''\<rparr>,
                       sv\<lparr>sv_db := d'\<rparr>)
                  | Inr sv' \<Rightarrow>
                      (\<lparr>res_status = 200, res_body = Message ''Page scraping restarted''\<rparr>,
                       sv'))))"

section \<open>The dashboard's notifications\<close>

record cpage =
  c_id :: string
  c_url :: string
  c_title :: "string option"
  c_status :: status
  c_linkCount :: nat
  c_isTemporary :: bool

text \<open>A toast is identified by its kind and the page id (\<open>completed-id\<close>, \<open>failed-id\<close>).\<close>

datatype toast = ToastSuccess string | ToastError string

text \<open>
  \<open>notifiedPages\<close> is the content of the ref's Set, in insertion order;
  \<open>localStorage\<close> is the \<open>notifiedPages\<close> item of the browser's storage, \<open>None\<close>
  when it is not set.
\<close>

record notifier =
  notifiedPages :: "string list"
  localStorage :: "string list option"

definition status_str :: "status \<Rightarrow> string" where
  "status_str s = (case s of PENDING \<Rightarrow> ''PENDING'' | PROCESSING \<Rightarrow> ''PROCESSING''
                   | COMPLETED \<Rightarrow> ''COMPLETED'' | FAILED \<Rightarrow> ''FAILED'')"

definition pageKey :: "string \<Rightarrow> status \<Rightarrow> string" where
  "pageKey ident st = ident @ ''-'' @ status_str st"

definition set_add :: "string list \<Rightarrow> string \<Rightarrow> string list" where
  "set_add xs k = (if k \<in> set xs then xs else xs @ [k])"

definition new_Set :: "string list \<Rightarrow> string list" where
  "new_Set xs = foldl set_add [] xs"

text \<open>One round of the \<open>forEach\<close> of \<open>checkForCompletedJobs\<close>.\<close>

definition check_page :: "toast list \<times> notifier \<Rightarrow> cpage \<Rightarrow> toast list \<times> notifier" where
  "check_page acc page =
     (if c_isTemporary page then acc
      else
        (let key = pageKey (c_id page) (c_status page);
             toasts = fst acc; n = snd acc
         in if c_status page = COMPLETED \<and> c_linkCount page > 0
                 \<and> \<not> (key \<in> set (notifiedPages n))
            then (let ref = set_add (notifiedPages n) key
                  in (toasts @ [ToastSuccess (c_id page)],
                      \<lparr>notifiedPages = ref, localStorage = Some ref\<rparr>))
            else if c_status page = FAILED \<and> \<not> (key \<in> set (notifiedPages n))
            then (let ref = set_add (notifiedPages n) key
                  in (toasts @ [ToastError (c_id page)],
                      \<lparr>notifiedPages = ref, localStorage = Some ref\<rparr>))
            else acc))"

definition checkForCompletedJobs :: "cpage list \<Rightarrow> notifier \<Rightarrow> toast list \<times> notifier" where
  "checkForCompletedJobs pgs n = foldl check_page ([], n) pgs"

text \<open>The effect on \<open>[pages, loading]\<close>.\<close>

definition notify_effect :: "cpage list \<Rightarrow> bool \<Rightarrow> notifier \<Rightarrow> toast list \<times> notifier" where
  "notify_effect pgs loading n =
     (if length pgs > 0 \<and> \<not> loading then checkForCompletedJobs pgs n else ([], n))"

text \<open>Reading the history back, as the mount effect and \<open>fetchPages\<close> do.\<close>

definition load_notified :: "notifier \<Rightarrow> notifier" where
  "load_notified n =
     (case localStorage n of
        Some savedNotifications \<Rightarrow> n\<lparr>notifiedPages := new_Set savedNotifications\<rparr>
      | None \<Rightarrow> n)"

text \<open>A full reload: the component starts with an empty Set; the storage survives.\<close>

definition reload :: "notifier \<Rightarrow> notifier" where
  "reload n = load_notified \<lparr>notifiedPages = [], localStorage = localStorage n\<rparr>"

text \<open>
  What happens to the notifier over time: the effect runs on a render with the current
  pages and loading flag (every poll ends in one, and the re-render the effect asks for
  after a status change is one more), a fetch reads the history back, the user reloads.
\<close>

datatype event = Render "cpage list" bool | Fetched | Reload

fun step :: "event \<Rightarrow> notifier \<Rightarrow> toast list \<times> notifier" where
  "step (Render pgs loading) n = notify_effect pgs loading n"
| "step Fetched n = ([], load_notified n)"
| "step Reload n = ([], reload n)"

fun run_events :: "event list \<Rightarrow> notifier \<Rightarrow> toast list \<times> notifier" where
  "run_events [] n = ([], n)"
| "run_events (e # es) n =
     (let (ts, n1) = step e n; (ts', n2) = run_events es n1 in (ts @ ts', n2))"

text \<open>A browser that has never stored a history.\<close>

definition fresh :: notifier where
  "fresh = \<lparr>notifiedPages = [], localStorage = None\<rparr>"

text \<open>
  The key under which a toast's page and status are recorded, and the agreement between
  the Set and the stored history that every mount establishes.
\<close>

definition toast_key :: "toast \<Rightarrow> string" where
  "toast_key t = (case t of ToastSuccess i \<Rightarrow> pageKey i COMPLETED
                  | ToastError i \<Rightarrow> pageKey i FAILED)"

definition in_step :: "notifier \<Rightarrow> bool" where
  "in_step n = (case localStorage n of
                  None \<Rightarrow> notifiedPages n = []
                | Some saved \<Rightarrow> set saved = set (notifiedPages n))"

text \<open>
  The invariant of the notification history: with \<open>K0\<close> the keys known when the
  session started and \<open>ts\<close> the toasts shown since, no toast was shown twice, the key of
  every toast shown is in the Set, the Set holds nothing else beyond \<open>K0\<close>, and the
  Set and the stored history agree.
\<close>

definition history_inv :: "string set \<Rightarrow> toast list \<Rightarrow> notifier \<Rightarrow> bool" where
  "history_inv K0 ts n =
     (distinct ts \<and> toast_key ` set ts \<subseteq> set (notifiedPages n)
      \<and> set (notifiedPages n) \<subseteq> K0 \<union> toast_key ` set ts \<and> in_step n)"

subsection \<open>The dashboard's own duplicate check\<close>

text \<open>\<open>handleSubmit\<close> looks for the URL among the loaded pages before it posts:
  trimmed, compared in lower case, temporary rows left out.\<close>

definition existingPage :: "cpage list \<Rightarrow> string \<Rightarrow> cpage option" where
  "existingPage pgs url =
     (let normalizedUrl = toLowerCase (trim url)
      in find (\<lambda>page. toLowerCase (c_url page) = normalizedUrl \<and> \<not> c_isTemporary page) pgs)"

section \<open>Concrete inputs\<close>

text \<open>
  An instance of the URL interface for the concrete runs below. It stands in for the
  platform's URL class on the inputs used there: http and https URLs without
  normalisation, and references resolved against a base whose path is empty.
\<close>

definition scheme_of :: "string \<Rightarrow> string" where
  "scheme_of u = (if startsWith u ''https://'' then ''https://''
                  else if startsWith u ''http://'' then ''http://'' else [])"

definition simple_origin :: "string \<Rightarrow> string" where
  "simple_origin u =
     (let sch = scheme_of u
      in sch @ takeWhile (\<lambda>c. c \<noteq> CHR ''/'' \<and> c \<noteq> CHR ''?'' \<and> c \<noteq> CHR ''#'')
                 (drop (length sch) u))"

definition simple_resolve :: "string \<Rightarrow> string \<Rightarrow> string option" where
  "simple_resolve href base =
     (if scheme_of base = [] then None
      else if scheme_of href \<noteq> [] then Some href
      else if startsWith href ''/'' then Some (simple_origin base @ href)
      else Some (simple_origin base @ ''/'' @ href))"

definition simple_url :: url_api where
  "simple_url = \<lparr>resolve = simple_resolve, origin = simple_origin\<rparr>"

definition anchor :: "string \<Rightarrow> string \<Rightarrow> element" where
  "anchor href txt = \<lparr>el_href = Some href, el_text = txt, el_title = None, el_imgs = []\<rparr>"

text \<open>The fixture of the round-trip property: two absolute anchors, one relative, one
  \<open>javascript:\<close> and one fragment-only.\<close>

definition fixture :: document where
  "fixture =
     \<lparr>doc_title = ''Example Page'', doc_h1 = ''Welcome to Example'',
      doc_anchors =
        [anchor ''https://example.com/page1'' ''Page 1'',
         anchor ''https://external.com/'' ''External Link'',
         anchor ''/about'' ''About'',
         anchor ''javascript:void(0)'' ''JavaScript Link'',
         anchor ''#'' ''Empty Link'']\<rparr>"

definition one_link_doc :: document where
  "one_link_doc =
     \<lparr>doc_title = ''Example Page'', doc_h1 = [],
      doc_anchors = [anchor ''https://example.com/page1'' ''Page 1'']\<rparr>"

definition ex_page :: "status \<Rightarrow> page" where
  "ex_page st =
     \<lparr>p_id = ''p1'', p_url = ''https://example.com'', p_title = None, p_status = st,
      p_linkCount = 0, p_userId = ''u1''\<rparr>"

definition ex_db :: "status \<Rightarrow> db" where
  "ex_db st = \<lparr>pages = [ex_page st], links = []\<rparr>"

definition ex_server :: "status \<Rightarrow> server" where
  "ex_server st = \<lparr>sv_db = ex_db st, sv_queue = [], sv_queue_up = True\<rparr>"

definition ex_job :: job where
  "ex_job = addScrapingJob ''p1'' ''https://example.com'' ''u1''"

definition fetch_ok :: "document \<Rightarrow> string \<Rightarrow> string + document" where
  "fetch_ok doc url = Inr doc"

definition fetch_down :: "string \<Rightarrow> string + document" where
  "fetch_down url = Inl ''connect ECONNREFUSED''"






text \<open>A page that is deleted while its job waits in the queue.\<close>

definition deleted_db :: db where
  "deleted_db = page_delete (ex_db PENDING) ''p1''"

text \<open>Two anchors to other origins whose URLs begin with the base's origin.\<close>

definition lookalike_doc :: document where
  "lookalike_doc =
     \<lparr>doc_title = ''Example Page'', doc_h1 = [],
      doc_anchors =
        [anchor ''https://example.com.evil.org/login'' ''Sign in'',
         anchor ''https://example.com:8443/admin'' ''Admin'']\<rparr>"

text \<open>The same URL submitted twice by one user, the second time with the host in
  capitals, and a third time as it was first.\<close>

definition dup_first :: "response \<times> server" where
  "dup_first = post_pages ''p1''
      \<lparr>rq_errors = [], rq_url = ''https://example.com'', rq_userId = ''u1''\<rparr>
      \<lparr>sv_db = \<lparr>pages = [], links = []\<rparr>, sv_queue = [], sv_queue_up = True\<rparr>"

definition dup_second :: "response \<times> server" where
  "dup_second = post_pages ''p2''
      \<lparr>rq_errors = [], rq_url = ''https://EXAMPLE.com'', rq_userId = ''u1''\<rparr>
      (snd dup_first)"

definition dup_third :: "response \<times> server" where
  "dup_third = post_pages ''p3''
      \<lparr>rq_errors = [], rq_url = ''https://example.com'', rq_userId = ''u1''\<rparr>
      (snd dup_second)"

text \<open>The dashboard's row for a page of the server.\<close>

definition cpage_of :: "page \<Rightarrow> cpage" where
  "cpage_of p =
     \<lparr>c_id = p_id p, c_url = p_url p, c_title = p_title p, c_status = p_status p,
      c_linkCount = p_linkCount p, c_isTemporary = False\<rparr>"

text \<open>A page that completed with links, one that completed without, one that failed.\<close>

definition done_page :: "nat \<Rightarrow> cpage" where
  "done_page k =
     \<lparr>c_id = ''p1'', c_url = ''https://example.com'', c_title = Some ''Example Page'',
      c_status = COMPLETED, c_linkCount = k, c_isTemporary = False\<rparr>"

definition failed_page :: cpage where
  "failed_page =
     \<lparr>c_id = ''p2'', c_url = ''https://example.org'', c_title = Some ''Scraping Failed'',
      c_status = FAILED, c_linkCount = 0, c_isTemporary = False\<rparr>"

text \<open>An anchor whose \<open>javascript:\<close> scheme is written with capitals.\<close>

definition capital_js_doc :: document where
  "capital_js_doc =
     \<lparr>doc_title = ''Example Page'', doc_h1 = [],
      doc_anchors = [anchor ''JavaScript:void(0)'' ''Run'']\<rparr>"

section \<open>Lookup and update in the page table\<close>

lemma find_map_upd:
  assumes "\<forall>q. p_id (f q) = p_id q"
  shows "find (\<lambda>p. p_id p = pid) (map (\<lambda>q. if p_id q = pid then f q else q) ps)
       = map_option f (find (\<lambda>p. p_id p = pid) ps)"
  using assms by (induction ps) auto

lemma find_map_upd_other:
  assumes "\<forall>q. p_id (f q) = p_id q" and "pid' \<noteq> pid"
  shows "find (\<lambda>p. p_id p = pid') (map (\<lambda>q. if p_id q = pid then f q else q) ps)
       = find (\<lambda>p. p_id p = pid') ps"
  using assms by (induction ps) auto

lemma find_id_user:
  assumes "distinct (map p_id ps)"
  shows "find (\<lambda>p. p_id p = pid \<and> p_userId p = uid) ps = Some p
     \<longleftrightarrow> find (\<lambda>p. p_id p = pid) ps = Some p \<and> p_userId p = uid"
  using assms
proof (induction ps)
  case Nil
  then show ?case by simp
next
  case (Cons a ps)
  show ?case
  proof (cases "p_id a = pid")
    case True
    then have "find (\<lambda>p. p_id p = pid \<and> p_userId p = uid) ps = None"
      using Cons.prems by (auto simp: find_None_iff image_iff)
    then show ?thesis using True by auto
  next
    case False
    then show ?thesis using Cons by simp
  qed
qed

section \<open>Retry\<close>

lemma retry_queue_down:
  assumes pk: "distinct (map p_id (pages (sv_db sv)))"
    and found: "page_findFirst (sv_db sv) (\<lambda>p. p_id p = ident \<and> p_userId p = userId) = Some pg"
    and failed: "p_status pg = FAILED"
    and down: "\<not> sv_queue_up sv"
  shows "fst (post_retry ident userId sv)
           = \<lparr>res_status = 500, res_body = Error ''Failed to retry page scraping''\<rparr>
       \<and> page_findUnique (sv_db (snd (post_retry ident userId sv))) ident
           = Some (pg\<lparr>p_status := PENDING\<rparr>)
       \<and> sv_queue (snd (post_retry ident userId sv)) = sv_queue sv"
proof -
  from found pk have fu: "page_findUnique (sv_db sv) ident = Some pg"
    by (simp add: page_findFirst_def page_findUnique_def find_id_user)
  show ?thesis
    using found fu failed down
      find_map_upd [of "\<lambda>q. q\<lparr>p_status := PENDING\<rparr>" ident "pages (sv_db sv)"]
    by (simp add: post_retry_def page_update_def page_findUnique_def queue_add_def)
qed

text \<open>
  C8, as the code has it. Ids are primary keys, hence distinct. When the id names no page
  of the caller, the retry route answers 404 "Page not found" and changes nothing. When
  it names a page of the caller: the route answers 200 only if the page's status is
  FAILED; if the status is FAILED and the queue takes the job, the answer is 200, the
  page's status becomes PENDING, every other page and all links stay as they are, and
  one job is appended to the queue, the job named \<open>scrape-page\<close> that carries this
  page's id, this page's URL and the caller's id, with three attempts; for any other
  status the answer is 400 with the message "Only failed pages can be retried", and
  neither the database nor the queue changes.
\<close>

theorem C8_retry_only_failed:
  assumes pk: "distinct (map p_id (pages (sv_db sv)))"
  shows "(page_findFirst (sv_db sv) (\<lambda>p. p_id p = ident \<and> p_userId p = userId) = None \<longrightarrow>
           post_retry ident userId sv
             = (\<lparr>res_status = 404, res_body = Error ''Page not found''\<rparr>, sv))
    \<and> (\<forall>pg. page_findFirst (sv_db sv) (\<lambda>p. p_id p = ident \<and> p_userId p = userId) = Some pg \<longrightarrow>
          (res_status (fst (post_retry ident userId sv)) = 200 \<longrightarrow> p_status pg = FAILED)
        \<and> (p_status pg = FAILED \<longrightarrow> sv_queue_up sv \<longrightarrow>
              fst (post_retry ident userId sv)
                = \<lparr>res_status = 200, res_body = Message ''Page scraping restarted''\<rparr>
            \<and> page_findUnique (sv_db (snd (post_retry ident userId sv))) ident
                = Some (pg\<lparr>p_status := PENDING\<rparr>)
            \<and> (\<forall>other. other \<noteq> ident \<longrightarrow>
                  page_findUnique (sv_db (snd (post_retry ident userId sv))) other
                    = page_findUnique (sv_db sv) other)
            \<and> links (sv_db (snd (post_retry ident userId sv))) = links (sv_db sv)
            \<and> sv_queue (snd (post_retry ident userId sv))
                = sv_queue sv @
                  [\<lparr>j_name = ''scrape-page'', j_pageId = ident, j_url = p_url pg,
                    j_userId = userId, j_attempts = 3, j_backoff_delay = 2000\<rparr>])
        \<and> (p_status pg \<noteq> FAILED \<longrightarrow>
              post_retry ident userId sv
                = (\<lparr>res_status = 400, res_body = Error ''Only failed pages can be retried''\<rparr>,
                   sv)))"
proof (intro conjI allI impI)
  assume "page_findFirst (sv_db sv) (\<lambda>p. p_id p = ident \<and> p_userId p = userId) = None"
  then show "post_retry ident userId sv
      = (\<lparr>res_status = 404, res_body = Error ''Page not found''\<rparr>, sv)"
    by (simp add: post_retry_def)
next
  fix pg
  assume found: "page_findFirst (sv_db sv) (\<lambda>p. p_id p = ident \<and> p_userId p = userId) = Some pg"
    and ok: "res_status (fst (post_retry ident userId sv)) = 200"
  show "p_status pg = FAILED"
  proof (rule ccontr)
    assume "p_status pg \<noteq> FAILED"
    with found ok show False by (simp add: post_retry_def)
  qed
next
  fix pg
  assume found: "page_findFirst (sv_db sv) (\<lambda>p. p_id p = ident \<and> p_userId p = userId) = Some pg"
    and nf: "p_status pg \<noteq> FAILED"
  then show "post_retry ident userId sv
      = (\<lparr>res_status = 400, res_body = Error ''Only failed pages can be retried''\<rparr>, sv)"
    by (simp add: post_retry_def)
next
  fix pg
  assume found: "page_findFirst (sv_db sv) (\<lambda>p. p_id p = ident \<and> p_userId p = userId) = Some pg"
    and failed: "p_status pg = FAILED" and up: "sv_queue_up sv"
  from found pk have fu: "page_findUnique (sv_db sv) ident = Some pg"
    by (simp add: page_findFirst_def page_findUnique_def find_id_user)
  then have pid: "p_id pg = ident"
    by (auto simp: page_findUnique_def find_Some_iff)
  have run: "post_retry ident userId sv
      = (\<lparr>res_status = 200, res_body = Message ''Page scraping restarted''\<rparr>,
         \<lparr>sv_db = (sv_db sv)\<lparr>pages := map (\<lambda>q. if p_id q = ident then q\<lparr>p_status := PENDING\<rparr> else q)
                                      (pages (sv_db sv))\<rparr>,
          sv_queue = sv_queue sv @
            [\<lparr>j_name = ''scrape-page'', j_pageId = ident, j_url = p_url pg,
              j_userId = userId, j_attempts = 3, j_backoff_delay = 2000\<rparr>],
          sv_queue_up = True\<rparr>)"
    using found fu failed up pid
    by (simp add: post_retry_def page_update_def queue_add_def addScrapingJob_def)
  show "fst (post_retry ident userId sv)
      = \<lparr>res_status = 200, res_body = Message ''Page scraping restarted''\<rparr>"
    by (simp add: run)
  show "page_findUnique (sv_db (snd (post_retry ident userId sv))) ident
      = Some (pg\<lparr>p_status := PENDING\<rparr>)"
    using fu find_map_upd [of "\<lambda>q. q\<lparr>p_status := PENDING\<rparr>" ident "pages (sv_db sv)"]
    by (simp add: run page_findUnique_def)
  show "links (sv_db (snd (post_retry ident userId sv))) = links (sv_db sv)"
    by (simp add: run)
  show "sv_queue (snd (post_retry ident userId sv))
      = sv_queue sv @
        [\<lparr>j_name = ''scrape-page'', j_pageId = ident, j_url = p_url pg,
          j_userId = userId, j_attempts = 3, j_backoff_delay = 2000\<rparr>]"
    by (simp add: run)
  fix other
  assume "other \<noteq> ident"
  then show "page_findUnique (sv_db (snd (post_retry ident userId sv))) other
      = page_findUnique (sv_db sv) other"
    using find_map_upd_other [of "\<lambda>q. q\<lparr>p_status := PENDING\<rparr>" other ident "pages (sv_db sv)"]
    by (simp add: run page_findUnique_def)
qed

theorem C8_retry_only_failed_witness:
  "fst (post_retry ''p1'' ''u1'' (ex_server FAILED))
     = \<lparr>res_status = 200, res_body = Message ''Page scraping restarted''\<rparr>
   \<and> page_findUnique (sv_db (snd (post_retry ''p1'' ''u1'' (ex_server FAILED)))) ''p1''
       = Some (ex_page PENDING)
   \<and> sv_queue (snd (post_retry ''p1'' ''u1'' (ex_server FAILED)))
       = [\<lparr>j_name = ''scrape-page'', j_pageId = ''p1'', j_url = ''https://example.com'',
           j_userId = ''u1'', j_attempts = 3, j_backoff_delay = 2000\<rparr>]
   \<and> post_retry ''p1'' ''u1'' (ex_server COMPLETED)
       = (\<lparr>res_status = 400, res_body = Error ''Only failed pages can be retried''\<rparr>,
          ex_server COMPLETED)
   \<and> post_retry ''p9'' ''u1'' (ex_server FAILED)
       = (\<lparr>res_status = 404, res_body = Error ''Page not found''\<rparr>, ex_server FAILED)"
proof -
  have pk: "distinct (map p_id (pages (sv_db (ex_server st))))" for st
    by (simp add: ex_server_def ex_db_def)
  have f: "page_findFirst (sv_db (ex_server st)) (\<lambda>p. p_id p = ''p1'' \<and> p_userId p = ''u1'')
             = Some (ex_page st)" for st
    by (simp add: ex_server_def ex_db_def ex_page_def page_findFirst_def)
  have g: "page_findFirst (sv_db (ex_server FAILED)) (\<lambda>p. p_id p = ''p9'' \<and> p_userId p = ''u1'')
             = None"
    by (simp add: ex_server_def ex_db_def ex_page_def page_findFirst_def)
  have up: "sv_queue_up (ex_server FAILED)" "sv_queue (ex_server FAILED) = []"
    by (simp_all add: ex_server_def)
  have st: "p_status (ex_page st) = st" "p_url (ex_page st) = ''https://example.com''"
    "(ex_page FAILED)\<lparr>p_status := PENDING\<rparr> = ex_page PENDING" for st
    by (simp_all add: ex_page_def)
  note a = C8_retry_only_failed [OF pk, of FAILED "''p1''" "''u1''"]
  note b = C8_retry_only_failed [OF pk, of COMPLETED "''p1''" "''u1''"]
  note c = C8_retry_only_failed [OF pk, of FAILED "''p9''" "''u1''"]
  from a f [of FAILED] up st have
    "fst (post_retry ''p1'' ''u1'' (ex_server FAILED))
       = \<lparr>res_status = 200, res_body = Message ''Page scraping restarted''\<rparr>"
    "page_findUnique (sv_db (snd (post_retry ''p1'' ''u1'' (ex_server FAILED)))) ''p1''
       = Some (ex_page PENDING)"
    "sv_queue (snd (post_retry ''p1'' ''u1'' (ex_server FAILED)))
       = [\<lparr>j_name = ''scrape-page'', j_pageId = ''p1'', j_url = ''https://example.com'',
           j_userId = ''u1'', j_attempts = 3, j_backoff_delay = 2000\<rparr>]"
    by simp_all
  moreover from b f [of COMPLETED] st have
    "post_retry ''p1'' ''u1'' (ex_server COMPLETED)
       = (\<lparr>res_status = 400, res_body = Error ''Only failed pages can be retried''\<rparr>,
          ex_server COMPLETED)"
    by simp
  moreover from c g have
    "post_retry ''p9'' ''u1'' (ex_server FAILED)
       = (\<lparr>res_status = 404, res_body = Error ''Page not found''\<rparr>, ex_server FAILED)"
    by simp
  ultimately show ?thesis by simp
qed

text \<open>
  The claim as stated has retry succeed for every FAILED page and answer "only failed
  pages can be retried" for every other one. For a page of another user the route
  answers 404 whatever the status, and the FAILED page stays FAILED. And when the queue
  cannot be reached, the retry of the caller's own FAILED page answers 500, with no job
  enqueued.
\<close>

theorem C8_counterexample:
  "map (\<lambda>p. (p_id p, p_userId p, p_status p)) (pages (sv_db (ex_server FAILED)))
     = [(''p1'', ''u1'', FAILED)]
   \<and> post_retry ''p1'' ''u2'' (ex_server FAILED)
     = (\<lparr>res_status = 404, res_body = Error ''Page not found''\<rparr>, ex_server FAILED)
   \<and> post_retry ''p1'' ''u2'' (ex_server PENDING)
     = (\<lparr>res_status = 404, res_body = Error ''Page not found''\<rparr>, ex_server PENDING)
   \<and> res_status (fst (post_retry ''p1'' ''u1'' ((ex_server FAILED)\<lparr>sv_queue_up := False\<rparr>)))
     = 500
   \<and> sv_queue (snd (post_retry ''p1'' ''u1'' ((ex_server FAILED)\<lparr>sv_queue_up := False\<rparr>)))
     = []"
  by (simp add: post_retry_def page_findFirst_def page_update_def page_findUnique_def
      queue_add_def ex_server_def ex_db_def ex_page_def)

section \<open>Runs of the worker\<close>

lemmas ex_defs = ex_job_def addScrapingJob_def ex_db_def ex_page_def fetch_ok_def fetch_down_def
  one_link_doc_def fixture_def anchor_def simple_url_def simple_resolve_def simple_origin_def
  scheme_of_def startsWith_def

lemmas worker_defs = scraperWorker_def on_error_def mark_failed_def page_update_def
  page_findUnique_def page_findFirst_def page_create_def link_createMany_def linkData_of_def
  completed_with_def tx_begin_def tx_view_def tx_put_def tx_commit_def tx_rollback_def
  scrapePage_def scrapePage_each_def select_a_href_def trim_def isSpace_def or_str_def
  attr_or_def attr_or_undefined_def Let_def

lemma findUnique_update:
  assumes "\<forall>q. p_id (f q) = p_id q" and "page_update d pid f = Inr (u, d')"
  shows "page_findUnique d' pid = Some u \<and> links d' = links d
     \<and> (\<exists>p. page_findUnique d pid = Some p \<and> u = f p)
     \<and> (\<forall>other. other \<noteq> pid \<longrightarrow> page_findUnique d' other = page_findUnique d other)"
  using assms find_map_upd [of f pid "pages d"] find_map_upd_other [of f _ pid "pages d"]
  by (auto simp: page_update_def page_findUnique_def split: option.splits)

lemma page_update_found:
  assumes "page_findUnique d pid = Some p"
  shows "\<exists>d'. page_update d pid f = Inr (f p, d')"
  using assms by (simp add: page_update_def)

lemma worker_not_found:
  assumes "page_findUnique d (j_pageId job) = None"
  shows "scraperWorker api fetch d job
       = \<lparr>r_result = Inl ''Page not found'', r_db = d,
          r_trail = [\<lparr>committed = d, txv = Some d\<rparr>, \<lparr>committed = d, txv = None\<rparr>,
                     \<lparr>committed = d, txv = None\<rparr>],
          r_fetch = None\<rparr>"
  using assms
  by (simp add: scraperWorker_def Let_def tx_begin_def tx_view_def on_error_def
      tx_rollback_def mark_failed_def)

lemma worker_scrape_failed:
  assumes f: "page_findUnique d (j_pageId job) = Some p"
    and s: "scrapePage api fetch (j_url job) None = Inl e"
  shows "r_result (scraperWorker api fetch d job) = Inl e"
    and "page_findUnique (r_db (scraperWorker api fetch d job)) (j_pageId job)
           = Some (p\<lparr>p_status := FAILED, p_title := Some ''Scraping Failed''\<rparr>)"
    and "links (r_db (scraperWorker api fetch d job)) = links d"
    and "other \<noteq> j_pageId job \<Longrightarrow>
           page_findUnique (r_db (scraperWorker api fetch d job)) other = page_findUnique d other"
    and "observable (scraperWorker api fetch d job)
           = [d, d, d, r_db (scraperWorker api fetch d job)]"
proof -
  let ?pid = "j_pageId job"
  let ?F = "\<lambda>p. p\<lparr>p_status := FAILED, p_title := Some ''Scraping Failed''\<rparr>"
  obtain t1 where u1: "page_update d ?pid (\<lambda>p. p\<lparr>p_status := PROCESSING\<rparr>)
      = Inr (p\<lparr>p_status := PROCESSING\<rparr>, t1)"
    using page_update_found [OF f] by blast
  obtain d2 where u2: "page_update d ?pid ?F = Inr (?F p, d2)"
    using page_update_found [OF f] by blast
  have w: "scraperWorker api fetch d job
      = \<lparr>r_result = Inl e, r_db = d2,
         r_trail = [\<lparr>committed = d, txv = Some d\<rparr>, \<lparr>committed = d, txv = Some t1\<rparr>,
                    \<lparr>committed = d, txv = None\<rparr>, \<lparr>committed = d2, txv = None\<rparr>],
         r_fetch = Some \<lparr>committed = d, txv = Some t1\<rparr>\<rparr>"
    using f s u1 u2
    by (simp add: scraperWorker_def Let_def tx_begin_def tx_view_def tx_put_def on_error_def
        tx_rollback_def mark_failed_def)
  have k: "\<forall>q. p_id (?F q) = p_id q" by simp
  note fu = findUnique_update [OF k u2]
  show "r_result (scraperWorker api fetch d job) = Inl e" by (simp add: w)
  show "page_findUnique (r_db (scraperWorker api fetch d job)) ?pid = Some (?F p)"
    using fu by (simp add: w)
  show "links (r_db (scraperWorker api fetch d job)) = links d"
    using fu by (simp add: w)
  show "other \<noteq> ?pid \<Longrightarrow>
           page_findUnique (r_db (scraperWorker api fetch d job)) other = page_findUnique d other"
    using fu by (simp add: w)
  show "observable (scraperWorker api fetch d job)
           = [d, d, d, r_db (scraperWorker api fetch d job)]"
    by (simp add: w observable_def)
qed

lemma worker_success:
  assumes f: "page_findUnique d (j_pageId job) = Some p"
    and s: "scrapePage api fetch (j_url job) None = Inr sp"
  shows "r_result (scraperWorker api fetch d job) = Inr (completed_with sp p)"
    and "page_findUnique (r_db (scraperWorker api fetch d job)) (j_pageId job)
           = Some (completed_with sp p)"
    and "links (r_db (scraperWorker api fetch d job))
           = links d @ linkData_of (j_pageId job) (sp_links sp)"
    and "other \<noteq> j_pageId job \<Longrightarrow>
           page_findUnique (r_db (scraperWorker api fetch d job)) other = page_findUnique d other"
    and "observable (scraperWorker api fetch d job)
           = [d, d, d, d, r_db (scraperWorker api fetch d job)]"
    and "\<exists>st. r_fetch (scraperWorker api fetch d job) = Some st \<and> committed st = d
           \<and> page_findUnique (tx_view st) (j_pageId job) = Some (p\<lparr>p_status := PROCESSING\<rparr>)"
proof -
  let ?pid = "j_pageId job"
  let ?P = "\<lambda>p. p\<lparr>p_status := PROCESSING\<rparr>"
  let ?L = "linkData_of ?pid (sp_links sp)"
  obtain t1 where u1: "page_update d ?pid ?P = Inr (?P p, t1)"
    using page_update_found [OF f] by blast
  have kP: "\<forall>q. p_id (?P q) = p_id q" by simp
  note fu1 = findUnique_update [OF kP u1]
  then have f1: "page_findUnique t1 ?pid = Some (?P p)" by simp
  obtain t2 where u2: "page_update t1 ?pid (completed_with sp) = Inr (completed_with sp (?P p), t2)"
    using page_update_found [OF f1] by blast
  have kC: "\<forall>q. p_id (completed_with sp q) = p_id q" by (simp add: completed_with_def)
  note fu2 = findUnique_update [OF kC u2]
  have c: "completed_with sp (?P p) = completed_with sp p" by (simp add: completed_with_def)
  have w: "scraperWorker api fetch d job
      = \<lparr>r_result = Inr (completed_with sp p), r_db = t2\<lparr>links := links t2 @ ?L\<rparr>,
         r_trail = [\<lparr>committed = d, txv = Some d\<rparr>, \<lparr>committed = d, txv = Some t1\<rparr>,
                    \<lparr>committed = d, txv = Some t2\<rparr>,
                    \<lparr>committed = d, txv = Some (t2\<lparr>links := links t2 @ ?L\<rparr>)\<rparr>,
                    \<lparr>committed = t2\<lparr>links := links t2 @ ?L\<rparr>, txv = None\<rparr>],
         r_fetch = Some \<lparr>committed = d, txv = Some t1\<rparr>\<rparr>"
    using f s u1 u2 [unfolded c]
    by (simp add: scraperWorker_def Let_def tx_begin_def tx_view_def tx_put_def tx_commit_def
        link_createMany_def)
  show "r_result (scraperWorker api fetch d job) = Inr (completed_with sp p)"
    by (simp add: w)
  show "page_findUnique (r_db (scraperWorker api fetch d job)) ?pid = Some (completed_with sp p)"
    using fu2 by (simp add: w c page_findUnique_def)
  show "links (r_db (scraperWorker api fetch d job)) = links d @ ?L"
    using fu1 fu2 by (simp add: w)
  show "other \<noteq> ?pid \<Longrightarrow>
           page_findUnique (r_db (scraperWorker api fetch d job)) other = page_findUnique d other"
    using fu1 fu2 by (simp add: w page_findUnique_def)
  show "observable (scraperWorker api fetch d job)
           = [d, d, d, d, r_db (scraperWorker api fetch d job)]"
    by (simp add: w observable_def)
  show "\<exists>st. r_fetch (scraperWorker api fetch d job) = Some st \<and> committed st = d
           \<and> page_findUnique (tx_view st) ?pid = Some (p\<lparr>p_status := PROCESSING\<rparr>)"
    using f1 by (simp add: w tx_view_def)
qed







section \<open>A job that succeeds\<close>




section \<open>A job whose scrape fails\<close>

lemma scrapePage_fetch_failed:
  "fetch url = Inl m \<Longrightarrow> scrapePage api fetch url ml = Inl (''Failed to scrape page: '' @ m)"
  by (simp add: scrapePage_def)

lemma find_snoc:
  "find P (xs @ [y])
     = (case find P xs of None \<Rightarrow> (if P y then Some y else None) | Some x \<Rightarrow> Some x)"
  by (induction xs) auto

lemma page_create_row:
  assumes "page_create d0 newId url uid st = Inr (p, d)"
  shows "p_linkCount p = 0 \<and> p_title p = None \<and> p_status p = st
       \<and> page_findUnique d0 newId = None \<and> page_findUnique d newId = Some p
       \<and> links d = links d0"
  using assms
  by (auto simp: page_create_def page_findUnique_def find_snoc Let_def split: option.splits)

text \<open>
  C2. When the page exists and the fetch-and-extract step (\<open>scrapePage\<close>) fails, the
  handler throws that error, and the committed database holds the page with status FAILED
  and the title "Scraping Failed", every other column, linkCount among them, as before;
  linkCount is 0 when the page is the row the create route has just inserted. The Link
  table is the same as before the job, in the final state and in every state a reader
  could see on the way.
\<close>

theorem C2_failed_attempt:
  assumes f: "page_findUnique d (j_pageId job) = Some p"
    and s: "scrapePage api fetch (j_url job) None = Inl e"
  shows "r_result (scraperWorker api fetch d job) = Inl e
      \<and> page_findUnique (r_db (scraperWorker api fetch d job)) (j_pageId job)
           = Some (p\<lparr>p_status := FAILED, p_title := Some ''Scraping Failed''\<rparr>)
      \<and> p_linkCount (p\<lparr>p_status := FAILED, p_title := Some ''Scraping Failed''\<rparr>)
           = p_linkCount p
      \<and> (\<forall>d0 uid. page_create d0 (j_pageId job) (j_url job) uid PENDING = Inr (p, d)
             \<longrightarrow> p_linkCount p = 0)
      \<and> links (r_db (scraperWorker api fetch d job)) = links d
      \<and> (\<forall>d' \<in> set (observable (scraperWorker api fetch d job)). links d' = links d)"
proof -
  note w = worker_scrape_failed [OF f s]
  have z: "\<forall>d0 uid. page_create d0 (j_pageId job) (j_url job) uid PENDING = Inr (p, d)
      \<longrightarrow> p_linkCount p = 0"
    using page_create_row by blast
  show ?thesis
    using w(1) w(2) w(3) w(5) z by simp
qed

theorem C2_failed_attempt_witness:
  "r_result (scraperWorker simple_url fetch_down (ex_db PENDING) ex_job)
     = Inl ''Failed to scrape page: connect ECONNREFUSED''
   \<and> page_findUnique (r_db (scraperWorker simple_url fetch_down (ex_db PENDING) ex_job)) ''p1''
     = Some \<lparr>p_id = ''p1'', p_url = ''https://example.com'', p_title = Some ''Scraping Failed'',
             p_status = FAILED, p_linkCount = 0, p_userId = ''u1''\<rparr>
   \<and> links (r_db (scraperWorker simple_url fetch_down (ex_db PENDING) ex_job)) = []"
proof -
  have f: "page_findUnique (ex_db PENDING) (j_pageId ex_job) = Some (ex_page PENDING)"
    by (simp add: ex_defs page_findUnique_def)
  have s: "scrapePage simple_url fetch_down (j_url ex_job) None
      = Inl ''Failed to scrape page: connect ECONNREFUSED''"
    by (simp add: scrapePage_def fetch_down_def)
  from C2_failed_attempt [OF f s] show ?thesis
    by (simp add: ex_defs)
qed

section \<open>A job whose page is gone\<close>

lemma attempt_loop_absent:
  assumes "page_findUnique d (j_pageId job) = None"
  shows "attempt_loop api fetch job left made d
       = \<lparr>o_state = JobFailed ''Page not found'', o_attemptsMade = Suc (made + left), o_db = d\<rparr>"
  using assms
proof (induction left arbitrary: made)
  case 0
  then show ?case by (simp add: worker_not_found)
next
  case (Suc left)
  then show ?case by (simp add: worker_not_found)
qed

text \<open>
  C3, as the code has it. When no page has the job's page id, the handler does not
  fetch anything, leaves the database as it is and throws "Page not found". The throw
  makes the attempt a failed one like any other: a job enqueued by \<open>addScrapingJob\<close>
  (three attempts) is attempted three times, each attempt finding the page absent, and
  ends as a failed job with the database unchanged.
\<close>

theorem C3_absent_page_attempted_again:
  assumes "page_findUnique d pageId = None"
  shows "r_result (scraperWorker api (fetch n) d (addScrapingJob pageId url userId))
           = Inl ''Page not found''
      \<and> r_db (scraperWorker api (fetch n) d (addScrapingJob pageId url userId)) = d
      \<and> r_fetch (scraperWorker api (fetch n) d (addScrapingJob pageId url userId)) = None
      \<and> process_job api fetch (addScrapingJob pageId url userId) d
           = \<lparr>o_state = JobFailed ''Page not found'', o_attemptsMade = 3, o_db = d\<rparr>"
proof -
  have a: "page_findUnique d (j_pageId (addScrapingJob pageId url userId)) = None"
    using assms by (simp add: addScrapingJob_def)
  have "j_attempts (addScrapingJob pageId url userId) - 1 = 2"
    by (simp add: addScrapingJob_def)
  then show ?thesis
    using attempt_loop_absent [OF a, of api fetch 2 0] worker_not_found [OF a, of api "fetch n"]
    by (simp add: process_job_def)
qed

theorem C3_absent_page_attempted_again_witness:
  "page_findUnique deleted_db ''p1'' = None
   \<and> process_job simple_url (\<lambda>n. fetch_ok fixture) ex_job deleted_db
       = \<lparr>o_state = JobFailed ''Page not found'', o_attemptsMade = 3, o_db = deleted_db\<rparr>"
proof -
  have a: "page_findUnique deleted_db ''p1'' = None"
    by (simp add: deleted_db_def page_delete_def page_findUnique_def ex_defs)
  from C3_absent_page_attempted_again [OF a] a show ?thesis
    by (simp add: ex_job_def)
qed

text \<open>
  The claim as stated has the job dropped after the first attempt. For a page deleted
  while its job waits in the queue, the queue makes three attempts, not one.
\<close>

theorem C3_counterexample:
  "page_findUnique deleted_db ''p1'' = None
   \<and> o_attemptsMade (process_job simple_url (\<lambda>n. fetch_ok fixture) ex_job deleted_db) = 3
   \<and> o_attemptsMade (process_job simple_url (\<lambda>n. fetch_ok fixture) ex_job deleted_db) \<noteq> 1"
proof -
  have a: "page_findUnique deleted_db (j_pageId ex_job) = None"
    by (simp add: deleted_db_def page_delete_def page_findUnique_def ex_defs)
  have "j_attempts ex_job - 1 = 2" by (simp add: ex_defs)
  then show ?thesis
    using a attempt_loop_absent [OF a, of simple_url "\<lambda>n. fetch_ok fixture" 2 0]
    by (simp add: process_job_def ex_job_def addScrapingJob_def)
qed

section \<open>What readers see while a job runs\<close>

text \<open>
  Whatever the scrape returns, every state a reader can see during a job shows the page
  with the status it had before the job, with COMPLETED or with FAILED. The status
  PROCESSING is written to the transaction's view only.
\<close>

lemma processing_never_committed:
  assumes f: "page_findUnique d (j_pageId job) = Some p"
    and d': "d' \<in> set (observable (scraperWorker api fetch d job))"
  shows "\<exists>q. page_findUnique d' (j_pageId job) = Some q
           \<and> (p_status q = p_status p \<or> p_status q = COMPLETED \<or> p_status q = FAILED)"
proof (cases "scrapePage api fetch (j_url job) None")
  case (Inl e)
  note w = worker_scrape_failed [OF f Inl]
  from d' w(5) have "d' = d \<or> d' = r_db (scraperWorker api fetch d job)" by auto
  then show ?thesis using f w(2) by auto
next
  case (Inr sp)
  note w = worker_success [OF f Inr]
  from d' w(5) have "d' = d \<or> d' = r_db (scraperWorker api fetch d job)" by auto
  then show ?thesis using f w(2) by (auto simp: completed_with_def)
qed

text \<open>
  C4, evaluated on a PENDING page. In the run whose fetch succeeds, the committed page
  is PENDING after every statement up to the commit and COMPLETED after it; while the
  HTTP request is in flight the committed status is PENDING and only the transaction's
  own view shows PROCESSING. In the run whose fetch fails, the committed statuses are
  PENDING and then FAILED. No reader ever sees PROCESSING.
\<close>

theorem C4_processing_not_visible:
  "map (\<lambda>d'. map p_status (pages d'))
       (observable (scraperWorker simple_url (fetch_ok fixture) (ex_db PENDING) ex_job))
     = [[PENDING], [PENDING], [PENDING], [PENDING], [COMPLETED]]
   \<and> map_option (\<lambda>s. map p_status (pages (committed s)))
       (r_fetch (scraperWorker simple_url (fetch_ok fixture) (ex_db PENDING) ex_job))
     = Some [PENDING]
   \<and> map_option (\<lambda>s. map p_status (pages (tx_view s)))
       (r_fetch (scraperWorker simple_url (fetch_ok fixture) (ex_db PENDING) ex_job))
     = Some [PROCESSING]
   \<and> map (\<lambda>d'. map p_status (pages d'))
       (observable (scraperWorker simple_url fetch_down (ex_db PENDING) ex_job))
     = [[PENDING], [PENDING], [PENDING], [FAILED]]"
  by (simp add: observable_def ex_defs worker_defs)

section \<open>The link extractor\<close>

lemma extractLinks_each_kept:
  "extractLinks_each api b acc el
     = (if dropped api b el then acc else acc @ [link_of api b el])"
  by (auto simp: extractLinks_each_def dropped_def link_of_def resolved_def Let_def
      split: option.splits)

lemma foldl_extractLinks_each:
  "foldl (extractLinks_each api b) acc els
     = acc @ map (link_of api b) (filter (\<lambda>e. \<not> dropped api b e) els)"
  by (induction els arbitrary: acc) (simp_all add: extractLinks_each_kept)

lemma scrapePage_each_kept:
  "scrapePage_each api b acc el
     = (if dropped api b el then acc
        else acc @ [(link_of api b el)\<lparr>l_text := l_text (last (scrapePage_each api b [] el))\<rparr>])"
  by (auto simp: scrapePage_each_def dropped_def link_of_def resolved_def Let_def
      split: option.splits)

lemma foldl_scrapePage_each_href:
  "map l_href (foldl (scrapePage_each api b) acc els)
     = map l_href acc @ map (resolved api b) (filter (\<lambda>e. \<not> dropped api b e) els)"
proof (induction els arbitrary: acc)
  case Nil
  then show ?case by simp
next
  case (Cons el els)
  show ?case
    by (subst foldl_Cons, subst Cons.IH, subst scrapePage_each_kept) (simp add: link_of_def)
qed

text \<open>What the loop drops on sight of the lower-case prefix is a \<open>javascript:\<close>
  pseudo-URL, so everything the loop drops is skipped under the rule.\<close>

lemma lowercase_prefix_is_javascript_url:
  assumes "startsWith h ''javascript:''"
  shows "is_javascript_url h"
proof -
  from assms have "take (length ''javascript:'') h = ''javascript:''"
    by (simp only: startsWith_def)
  then have h: "h = ''javascript:'' @ drop (length ''javascript:'') h"
    by (metis append_take_drop_id)
  have j: "\<not> (of_char CHR ''j'' :: nat) \<le> 32" by code_simp
  have lc: "toLowerCase ''javascript:'' = ''javascript:''" by code_simp
  have "url_clean (''javascript:'' @ r)
      = ''javascript:'' @ filter (\<lambda>c. c \<noteq> CHR 0x09 \<and> c \<noteq> CHR 0x0A \<and> c \<noteq> CHR 0x0D) r" for r
    using j by (simp add: url_clean_def)
  then have "toLowerCase (url_clean (''javascript:'' @ r))
      = ''javascript:'' @ toLowerCase (filter (\<lambda>c. c \<noteq> CHR 0x09 \<and> c \<noteq> CHR 0x0A \<and> c \<noteq> CHR 0x0D) r)"
    for r
    using lc by (simp add: toLowerCase_def)
  then have "is_javascript_url (''javascript:'' @ r)" for r
    by (simp add: is_javascript_url_def startsWith_def)
  with h show ?thesis by metis
qed

lemma dropped_skipped: "dropped api b e \<Longrightarrow> skipped api b e"
  by (auto simp: dropped_def skipped_def lowercase_prefix_is_javascript_url split: option.splits)

lemma skipped_dropped_iff:
  "skipped api b e \<longleftrightarrow>
     dropped api b e \<or> (\<exists>h. el_href e = Some h \<and> is_javascript_url h)"
  by (auto simp: dropped_def skipped_def lowercase_prefix_is_javascript_url split: option.splits)

text \<open>
  The loop compares the prefix letter by letter: an anchor whose scheme is written
  \<open>JavaScript:\<close> is a \<open>javascript:\<close> pseudo-URL, is not dropped, and comes out as a
  link whenever the URL class resolves it.
\<close>

lemma capital_javascript_kept:
  assumes "resolve api ''JavaScript:void(0)'' baseUrl = Some u"
  shows "is_javascript_url ''JavaScript:void(0)''
       \<and> map l_href (extractLinks api capital_js_doc baseUrl) = [u]"
proof -
  have "is_javascript_url ''JavaScript:void(0)''" by code_simp
  moreover have "map l_href (extractLinks api capital_js_doc baseUrl) = [u]"
    using assms
    by (simp add: extractLinks_def extractLinks_each_def capital_js_doc_def anchor_def
        select_a_href_def startsWith_def)
  ultimately show ?thesis by simp
qed

text \<open>
  C5, as the code has it by design. \<open>extractLinks\<close> returns the records of the anchors
  it keeps, one record per kept anchor, in document order. It keeps every anchor with an
  href attribute that is not skipped under the rule (href empty, \<open>#\<close>, a
  \<open>javascript:\<close> pseudo-URL, or not resolvable against the base), and it keeps no
  anchor whose href is empty, is \<open>#\<close>, starts with the lower-case prefix
  \<open>javascript:\<close> or does not resolve. Nothing is stated about \<open>javascript:\<close>
  pseudo-URLs written in another way. On a document without such anchors the records are
  exactly those of the anchors not skipped, and the links of \<open>scrapePage\<close> carry the
  same URLs. On the fixture with two absolute anchors, one relative, one
  \<open>javascript:\<close> and one fragment-only, whenever the three proper hrefs resolve, the
  result has exactly three records: the two absolute ones and the relative one, as
  resolved.
\<close>

theorem C5_extractLinks_emits:
  "(\<exists>keep. extractLinks api html baseUrl
              = map (link_of api baseUrl) (filter keep (select_a_href html))
          \<and> (\<forall>e. \<not> skipped api baseUrl e \<longrightarrow> keep e)
          \<and> (\<forall>e. keep e \<longrightarrow> \<not> dropped api baseUrl e))
   \<and> ((\<forall>e \<in> set (select_a_href html). skipped api baseUrl e \<longrightarrow> dropped api baseUrl e) \<longrightarrow>
         extractLinks api html baseUrl
           = map (link_of api baseUrl)
               (filter (\<lambda>e. \<not> skipped api baseUrl e) (select_a_href html))
       \<and> (\<forall>sp. scrapePage api (\<lambda>u. Inr html) baseUrl None = Inr sp \<longrightarrow>
             map l_href (sp_links sp)
               = map (resolved api baseUrl)
                   (filter (\<lambda>e. \<not> skipped api baseUrl e) (select_a_href html))))
   \<and> (resolve api ''https://example.com/page1'' baseUrl = Some ua \<longrightarrow>
        resolve api ''https://external.com/'' baseUrl = Some ub \<longrightarrow>
        resolve api ''/about'' baseUrl = Some uc \<longrightarrow>
          map l_href (extractLinks api fixture baseUrl) = [ua, ub, uc])"
proof -
  have code: "extractLinks api doc baseUrl
      = map (link_of api baseUrl) (filter (\<lambda>e. \<not> dropped api baseUrl e) (select_a_href doc))"
    for doc
    by (simp add: extractLinks_def foldl_extractLinks_each)
  have a: "\<exists>keep. extractLinks api html baseUrl
              = map (link_of api baseUrl) (filter keep (select_a_href html))
          \<and> (\<forall>e. \<not> skipped api baseUrl e \<longrightarrow> keep e)
          \<and> (\<forall>e. keep e \<longrightarrow> \<not> dropped api baseUrl e)"
  proof (intro exI conjI allI impI)
    show "extractLinks api html baseUrl
        = map (link_of api baseUrl)
            (filter (\<lambda>e. \<not> dropped api baseUrl e) (select_a_href html))"
      by (rule code)
  next
    fix e
    assume "\<not> skipped api baseUrl e"
    then show "\<not> dropped api baseUrl e" using dropped_skipped by blast
  next
    fix e
    assume "\<not> dropped api baseUrl e"
    then show "\<not> dropped api baseUrl e" .
  qed
  have b: "extractLinks api html baseUrl
           = map (link_of api baseUrl)
               (filter (\<lambda>e. \<not> skipped api baseUrl e) (select_a_href html))
       \<and> (\<forall>sp. scrapePage api (\<lambda>u. Inr html) baseUrl None = Inr sp \<longrightarrow>
             map l_href (sp_links sp)
               = map (resolved api baseUrl)
                   (filter (\<lambda>e. \<not> skipped api baseUrl e) (select_a_href html)))"
    if plain: "\<forall>e \<in> set (select_a_href html). skipped api baseUrl e \<longrightarrow> dropped api baseUrl e"
  proof -
    have same: "filter (\<lambda>e. \<not> dropped api baseUrl e) (select_a_href html)
        = filter (\<lambda>e. \<not> skipped api baseUrl e) (select_a_href html)"
      using plain dropped_skipped by (intro filter_cong) auto
    have "sp_links sp = foldl (scrapePage_each api baseUrl) [] (select_a_href html)"
      if "scrapePage api (\<lambda>u. Inr html) baseUrl None = Inr sp" for sp
      using that by (auto simp: scrapePage_def Let_def)
    then show ?thesis
      using same by (simp add: code foldl_scrapePage_each_href)
  qed
  have c: "map l_href (extractLinks api fixture baseUrl) = [ua, ub, uc]"
    if "resolve api ''https://example.com/page1'' baseUrl = Some ua"
      "resolve api ''https://external.com/'' baseUrl = Some ub"
      "resolve api ''/about'' baseUrl = Some uc"
    using that
    by (simp add: code fixture_def anchor_def select_a_href_def dropped_def link_of_def
        resolved_def startsWith_def)
  from a b c show ?thesis by blast
qed

theorem C5_extractLinks_emits_witness:
  "map l_href (extractLinks simple_url fixture ''https://example.com'')
     = [''https://example.com/page1'', ''https://external.com/'', ''https://example.com/about'']
   \<and> extractLinks simple_url fixture ''https://example.com''
     = map (link_of simple_url ''https://example.com'')
         [anchor ''https://example.com/page1'' ''Page 1'',
          anchor ''https://external.com/'' ''External Link'',
          anchor ''/about'' ''About'']
   \<and> map l_isExternal (extractLinks simple_url fixture ''https://example.com'')
     = [False, True, False]"
proof -
  have r: "resolve simple_url ''https://example.com/page1'' ''https://example.com''
             = Some ''https://example.com/page1''"
      "resolve simple_url ''https://external.com/'' ''https://example.com''
             = Some ''https://external.com/''"
      "resolve simple_url ''/about'' ''https://example.com'' = Some ''https://example.com/about''"
    by (simp_all add: ex_defs)
  have js: "\<not> is_javascript_url ''https://example.com/page1''"
    "\<not> is_javascript_url ''https://external.com/''"
    "\<not> is_javascript_url ''/about''"
    "is_javascript_url ''javascript:void(0)''"
    "\<not> is_javascript_url ''#''"
    by code_simp+
  have plain: "\<forall>e \<in> set (select_a_href fixture).
      skipped simple_url ''https://example.com'' e \<longrightarrow> dropped simple_url ''https://example.com'' e"
    by (simp add: select_a_href_def skipped_def dropped_def js ex_defs)
  have k: "filter (\<lambda>e. \<not> skipped simple_url ''https://example.com'' e) (select_a_href fixture)
      = [anchor ''https://example.com/page1'' ''Page 1'',
         anchor ''https://external.com/'' ''External Link'',
         anchor ''/about'' ''About'']"
    by (simp add: select_a_href_def skipped_def js ex_defs)
  note t = C5_extractLinks_emits [of simple_url fixture "''https://example.com''"
      "''https://example.com/page1''" "''https://external.com/''" "''https://example.com/about''"]
  from t r have h: "map l_href (extractLinks simple_url fixture ''https://example.com'')
      = [''https://example.com/page1'', ''https://external.com/'', ''https://example.com/about'']"
    by blast
  from t plain have "extractLinks simple_url fixture ''https://example.com''
      = map (link_of simple_url ''https://example.com'')
          (filter (\<lambda>e. \<not> skipped simple_url ''https://example.com'' e) (select_a_href fixture))"
    by blast
  then have e: "extractLinks simple_url fixture ''https://example.com''
      = map (link_of simple_url ''https://example.com'')
         [anchor ''https://example.com/page1'' ''Page 1'',
          anchor ''https://external.com/'' ''External Link'',
          anchor ''/about'' ''About'']"
    by (simp only: k)
  have x: "map l_isExternal (extractLinks simple_url fixture ''https://example.com'')
      = [False, True, False]"
    unfolding e by (simp add: link_of_def resolved_def ex_defs)
  from h e x show ?thesis by simp
qed

text \<open>
  The claim as stated expects two records on that fixture. The extractor returns three;
  only the \<open>javascript:\<close> and the fragment-only anchors are left out.
\<close>

theorem C5_counterexample:
  "length (extractLinks simple_url fixture ''https://example.com'') = 3
   \<and> length (extractLinks simple_url fixture ''https://example.com'') \<noteq> 2
   \<and> scrapePage simple_url (fetch_ok fixture) ''https://example.com'' None
     = Inr \<lparr>sp_url = ''https://example.com'', sp_title = ''Example Page'',
            sp_links =
              [\<lparr>l_href = ''https://example.com/page1'', l_text = ''Page 1'',
                 l_isExternal = False, l_title = None\<rparr>,
               \<lparr>l_href = ''https://external.com/'', l_text = ''External Link'',
                 l_isExternal = True, l_title = None\<rparr>,
               \<lparr>l_href = ''https://example.com/about'', l_text = ''About'',
                 l_isExternal = False, l_title = None\<rparr>]\<rparr>"
  by (simp add: extractLinks_def extractLinks_each_def ex_defs worker_defs)

section \<open>The externality flag\<close>

text \<open>The flag of every extracted link is the outcome of a prefix test: the link is
  internal exactly when its URL, as a string, starts with the origin of the base.\<close>

lemma isExternal_is_prefix_test:
  "\<forall>l \<in> set (extractLinks api html baseUrl).
     l_isExternal l = (\<not> startsWith (l_href l) (origin api baseUrl))"
  by (auto simp: extractLinks_def foldl_extractLinks_each link_of_def)

text \<open>
  C6, evaluated on two anchors to other origins. Scraped from
  \<open>https://example.com\<close>, the links to \<open>https://example.com.evil.org/login\<close> and to
  \<open>https://example.com:8443/admin\<close> are both flagged internal, by \<open>extractLinks\<close>
  and by \<open>scrapePage\<close>, although the origin of each differs from the base's origin
  (another host, another port).
\<close>

theorem C6_lookalike_origin_internal:
  "map l_isExternal (extractLinks simple_url lookalike_doc ''https://example.com'')
     = [False, False]
   \<and> map l_href (extractLinks simple_url lookalike_doc ''https://example.com'')
     = [''https://example.com.evil.org/login'', ''https://example.com:8443/admin'']
   \<and> map_sum id (\<lambda>sp. map l_isExternal (sp_links sp))
        (scrapePage simple_url (fetch_ok lookalike_doc) ''https://example.com'' None)
     = Inr [False, False]
   \<and> origin simple_url ''https://example.com'' = ''https://example.com''
   \<and> origin simple_url ''https://example.com.evil.org/login'' = ''https://example.com.evil.org''
   \<and> origin simple_url ''https://example.com:8443/admin'' = ''https://example.com:8443''"
  by (simp add: extractLinks_def extractLinks_each_def lookalike_doc_def ex_defs worker_defs)

section \<open>Creating a page\<close>

lemma post_pages_exact_duplicate:
  assumes "rq_errors req = []"
    and "page_findFirst (sv_db sv) (\<lambda>p. p_url p = rq_url req \<and> p_userId p = rq_userId req)
           = Some existing"
  shows "post_pages newId req sv
       = (\<lparr>res_status = 400, res_body = Error ''This URL has already been added for scraping''\<rparr>,
          sv)"
  using assms by (simp add: post_pages_def)

lemma post_pages_new:
  assumes "rq_errors req = []"
    and "page_findFirst (sv_db sv) (\<lambda>p. p_url p = rq_url req \<and> p_userId p = rq_userId req) = None"
    and "page_findUnique (sv_db sv) newId = None"
    and "sv_queue_up sv"
  shows "fst (post_pages newId req sv)
       = \<lparr>res_status = 201,
          res_body = Created ''Page scraping started''
            \<lparr>p_id = newId, p_url = rq_url req, p_title = None, p_status = PENDING,
             p_linkCount = 0, p_userId = rq_userId req\<rparr>\<rparr>"
  using assms by (simp add: post_pages_def page_create_def queue_add_def Let_def)

text \<open>
  C7, evaluated on one user's submissions. \<open>https://example.com\<close> is created with
  status PENDING; \<open>https://EXAMPLE.com\<close>, equal to it in lower case and a duplicate
  for the dashboard's own check, is accepted as well, so the user has two pages; only
  the third submission, identical to the first character by character, is refused.
\<close>

theorem C7_case_variant_accepted:
  "res_status (fst dup_first) = 201
   \<and> res_status (fst dup_second) = 201
   \<and> map (\<lambda>p. (p_id p, p_url p, p_userId p, p_status p)) (pages (sv_db (snd dup_second)))
     = [(''p1'', ''https://example.com'', ''u1'', PENDING),
        (''p2'', ''https://EXAMPLE.com'', ''u1'', PENDING)]
   \<and> toLowerCase ''https://EXAMPLE.com'' = toLowerCase ''https://example.com''
   \<and> existingPage (map cpage_of (pages (sv_db (snd dup_first)))) ''https://EXAMPLE.com''
     = Some (cpage_of \<lparr>p_id = ''p1'', p_url = ''https://example.com'', p_title = None,
                        p_status = PENDING, p_linkCount = 0, p_userId = ''u1''\<rparr>)
   \<and> fst dup_third
     = \<lparr>res_status = 400, res_body = Error ''This URL has already been added for scraping''\<rparr>
   \<and> snd dup_third = snd dup_second"
proof -
  have lc: "toLowerCase ''https://EXAMPLE.com'' = ''https://example.com''"
    "toLowerCase ''https://example.com'' = ''https://example.com''"
    by code_simp+
  show ?thesis
    by (simp add: dup_first_def dup_second_def dup_third_def post_pages_def queue_add_def
        existingPage_def cpage_of_def lc ex_defs worker_defs)
qed

section \<open>Notifications\<close>

lemma set_foldl_set_add: "set (foldl set_add acc xs) = set acc \<union> set xs"
  by (induction xs arbitrary: acc) (auto simp: set_add_def)

lemma set_new_Set: "set (new_Set xs) = set xs"
  by (simp add: new_Set_def set_foldl_set_add)

lemma load_notified_in_step:
  assumes "in_step n"
  shows "in_step (load_notified n) \<and> set (notifiedPages (load_notified n)) = set (notifiedPages n)
       \<and> localStorage (load_notified n) = localStorage n"
  using assms by (auto simp: in_step_def load_notified_def set_new_Set split: option.splits)

lemma reload_in_step: "in_step (reload n)"
  by (auto simp: in_step_def reload_def load_notified_def set_new_Set split: option.splits)

lemma reload_keeps:
  assumes "in_step n"
  shows "set (notifiedPages (reload n)) = set (notifiedPages n)
       \<and> localStorage (reload n) = localStorage n"
  using assms by (auto simp: in_step_def reload_def load_notified_def set_new_Set split: option.splits)

lemma toast_key_completed:
  assumes "toast_key t = pageKey i COMPLETED"
  shows "t = ToastSuccess i"
proof (cases t)
  case (ToastSuccess j)
  then show ?thesis using assms by (simp add: toast_key_def pageKey_def status_str_def)
next
  case (ToastError j)
  with assms have "j @ ''-FAILED'' = i @ ''-COMPLETED''"
    by (simp add: toast_key_def pageKey_def status_str_def)
  then have "take 3 (rev (j @ ''-FAILED'')) = take 3 (rev (i @ ''-COMPLETED''))" by simp
  then show ?thesis by simp
qed

text \<open>What one round of the loop does, case by case.\<close>

lemma check_page_cases:
  "check_page (ts, n) p =
     (if \<not> c_isTemporary p \<and> c_status p = COMPLETED \<and> 0 < c_linkCount p
          \<and> pageKey (c_id p) COMPLETED \<notin> set (notifiedPages n)
      then (ts @ [ToastSuccess (c_id p)],
            \<lparr>notifiedPages = notifiedPages n @ [pageKey (c_id p) COMPLETED],
             localStorage = Some (notifiedPages n @ [pageKey (c_id p) COMPLETED])\<rparr>)
      else if \<not> c_isTemporary p \<and> c_status p = FAILED
          \<and> pageKey (c_id p) FAILED \<notin> set (notifiedPages n)
      then (ts @ [ToastError (c_id p)],
            \<lparr>notifiedPages = notifiedPages n @ [pageKey (c_id p) FAILED],
             localStorage = Some (notifiedPages n @ [pageKey (c_id p) FAILED])\<rparr>)
      else (ts, n))"
  by (auto simp: check_page_def Let_def set_add_def)


lemma inv_emit:
  assumes "history_inv K0 ts n" and "toast_key t \<notin> set (notifiedPages n)"
  shows "history_inv K0 (ts @ [t])
           \<lparr>notifiedPages = notifiedPages n @ [toast_key t],
            localStorage = Some (notifiedPages n @ [toast_key t])\<rparr>"
  using assms by (auto simp: history_inv_def in_step_def)

lemma check_page_inv:
  assumes "history_inv K0 ts n"
  shows "history_inv K0 (fst (check_page (ts, n) p)) (snd (check_page (ts, n) p))"
proof -
  have ks: "toast_key (ToastSuccess (c_id p)) = pageKey (c_id p) COMPLETED"
    and ke: "toast_key (ToastError (c_id p)) = pageKey (c_id p) FAILED"
    by (simp_all add: toast_key_def)
  consider
      (success) "\<not> c_isTemporary p \<and> c_status p = COMPLETED \<and> 0 < c_linkCount p
          \<and> pageKey (c_id p) COMPLETED \<notin> set (notifiedPages n)"
    | (error) "\<not> (\<not> c_isTemporary p \<and> c_status p = COMPLETED \<and> 0 < c_linkCount p
          \<and> pageKey (c_id p) COMPLETED \<notin> set (notifiedPages n))"
        "\<not> c_isTemporary p \<and> c_status p = FAILED
          \<and> pageKey (c_id p) FAILED \<notin> set (notifiedPages n)"
    | (nothing) "\<not> (\<not> c_isTemporary p \<and> c_status p = COMPLETED \<and> 0 < c_linkCount p
          \<and> pageKey (c_id p) COMPLETED \<notin> set (notifiedPages n))"
        "\<not> (\<not> c_isTemporary p \<and> c_status p = FAILED
          \<and> pageKey (c_id p) FAILED \<notin> set (notifiedPages n))"
    by blast
  then show ?thesis
  proof cases
    case success
    then show ?thesis
      using inv_emit [OF assms, of "ToastSuccess (c_id p)"] by (simp add: check_page_cases ks)
  next
    case error
    then show ?thesis
      using inv_emit [OF assms, of "ToastError (c_id p)"] by (auto simp: check_page_cases ke)
  next
    case nothing
    then show ?thesis using assms by (auto simp: check_page_cases)
  qed
qed

lemma foldl_check_page_inv:
  assumes "history_inv K0 ts n"
  shows "history_inv K0 (fst (foldl check_page (ts, n) pgs)) (snd (foldl check_page (ts, n) pgs))"
  using assms
proof (induction pgs arbitrary: ts n)
  case Nil
  then show ?case by simp
next
  case (Cons p pgs)
  obtain ts1 n1 where c: "check_page (ts, n) p = (ts1, n1)" by (cases "check_page (ts, n) p")
  from check_page_inv [OF Cons.prems, of p] c have "history_inv K0 ts1 n1" by simp
  from Cons.IH [OF this] show ?case by (simp add: c)
qed

lemma check_page_prefix:
  "check_page (ts, n) p = (ts @ fst (check_page ([], n) p), snd (check_page ([], n) p))"
  by (simp add: check_page_cases)

lemma foldl_check_page_prefix:
  "foldl check_page (ts, n) pgs
     = (ts @ fst (foldl check_page ([], n) pgs), snd (foldl check_page ([], n) pgs))"
proof (induction pgs arbitrary: ts n)
  case Nil
  then show ?case by simp
next
  case (Cons p pgs)
  obtain t1 n1 where c: "check_page ([], n) p = (t1, n1)" by (cases "check_page ([], n) p")
  then have c': "check_page (ts, n) p = (ts @ t1, n1)"
    using check_page_prefix [of ts n p] by simp
  show ?case
    using Cons.IH [of "ts @ t1" n1] Cons.IH [of t1 n1] by (simp add: c c')
qed

lemma step_inv:
  assumes "history_inv K0 ts0 n"
  shows "history_inv K0 (ts0 @ fst (step e n)) (snd (step e n))"
proof (cases e)
  case (Render pgs loading)
  show ?thesis
  proof (cases "length pgs > 0 \<and> \<not> loading")
    case True
    then show ?thesis
      using foldl_check_page_inv [OF assms, of pgs] foldl_check_page_prefix [of ts0 n pgs]
      by (simp add: Render notify_effect_def checkForCompletedJobs_def)
  next
    case False
    then show ?thesis using assms by (auto simp: Render notify_effect_def)
  qed
next
  case Fetched
  from assms have "in_step n" by (simp add: history_inv_def)
  from load_notified_in_step [OF this] assms show ?thesis
    by (simp add: Fetched history_inv_def)
next
  case Reload
  from assms have "in_step n" by (simp add: history_inv_def)
  from reload_keeps [OF this] reload_in_step [of n] assms show ?thesis
    by (simp add: Reload history_inv_def)
qed

lemma run_events_inv:
  assumes "history_inv K0 ts0 n"
  shows "history_inv K0 (ts0 @ fst (run_events es n)) (snd (run_events es n))"
  using assms
proof (induction es arbitrary: ts0 n)
  case Nil
  then show ?case by simp
next
  case (Cons e es)
  from step_inv [OF Cons.prems, of e]
  have "history_inv K0 (ts0 @ fst (step e n)) (snd (step e n))" .
  from Cons.IH [OF this] show ?case
    by (simp add: case_prod_beta Let_def)
qed

lemma run_events_append:
  "run_events (es1 @ es2) n
     = (fst (run_events es1 n) @ fst (run_events es2 (snd (run_events es1 n))),
        snd (run_events es2 (snd (run_events es1 n))))"
  by (induction es1 arbitrary: n) (simp_all add: case_prod_beta Let_def)

lemma check_page_mono:
  "set (notifiedPages (snd acc)) \<subseteq> set (notifiedPages (snd (check_page acc p)))"
  by (cases acc) (auto simp: check_page_cases)

lemma foldl_check_page_mono:
  "set (notifiedPages (snd acc)) \<subseteq> set (notifiedPages (snd (foldl check_page acc pgs)))"
proof (induction pgs arbitrary: acc)
  case Nil
  then show ?case by simp
next
  case (Cons p pgs)
  from check_page_mono [of acc p] Cons.IH [of "check_page acc p"] show ?case by auto
qed

lemma check_page_records:
  assumes "\<not> c_isTemporary p" and "c_status p = COMPLETED" and "0 < c_linkCount p"
  shows "pageKey (c_id p) COMPLETED \<in> set (notifiedPages (snd (check_page acc p)))"
  using assms by (cases acc) (auto simp: check_page_cases)

lemma foldl_check_page_records:
  assumes "p \<in> set pgs" and "\<not> c_isTemporary p" and "c_status p = COMPLETED"
    and "0 < c_linkCount p"
  shows "pageKey (c_id p) COMPLETED \<in> set (notifiedPages (snd (foldl check_page acc pgs)))"
  using assms(1)
proof (induction pgs arbitrary: acc)
  case Nil
  then show ?case by simp
next
  case (Cons q pgs)
  show ?case
  proof (cases "q = p")
    case True
    from check_page_records [OF assms(2-4), of acc]
      foldl_check_page_mono [of "check_page acc p" pgs]
    show ?thesis by (auto simp: True)
  next
    case False
    with Cons.prems have "p \<in> set pgs" by simp
    from Cons.IH [OF this] show ?thesis by simp
  qed
qed

lemma count_list_distinct:
  "distinct xs \<Longrightarrow> count_list xs x = (if x \<in> set xs then 1 else 0)"
  by (induction xs) auto

lemma initial_history: "history_inv (set (notifiedPages (reload n0))) [] (reload n0)"
  by (simp add: history_inv_def reload_in_step)

lemma success_shown:
  assumes ev: "Render pgs False \<in> set es" and p: "p \<in> set pgs"
    and q: "\<not> c_isTemporary p" "c_status p = COMPLETED" "0 < c_linkCount p"
    and new: "pageKey (c_id p) COMPLETED \<notin> set (notifiedPages (reload n0))"
  shows "ToastSuccess (c_id p) \<in> set (fst (run_events es (reload n0)))"
proof -
  from ev obtain es1 es2 where es: "es = (es1 @ [Render pgs False]) @ es2"
    by (auto simp: in_set_conv_decomp)
  let ?K0 = "set (notifiedPages (reload n0))"
  let ?r1 = "run_events es1 (reload n0)"
  let ?r = "run_events (es1 @ [Render pgs False]) (reload n0)"
  from p have ne: "length pgs > 0" by (cases pgs) auto
  have n2: "snd ?r = snd (foldl check_page ([], snd ?r1) pgs)"
    using ne by (simp add: run_events_append notify_effect_def checkForCompletedJobs_def
        case_prod_beta Let_def)
  have k: "pageKey (c_id p) COMPLETED \<in> set (notifiedPages (snd ?r))"
    unfolding n2 by (rule foldl_check_page_records [OF p q])
  from run_events_inv [OF initial_history, of n0 "es1 @ [Render pgs False]"]
  have "set (notifiedPages (snd ?r)) \<subseteq> ?K0 \<union> toast_key ` set (fst ?r)"
    by (simp add: history_inv_def)
  with k new obtain t where t: "t \<in> set (fst ?r)" "toast_key t = pageKey (c_id p) COMPLETED"
    by auto
  from toast_key_completed [OF t(2)] t(1) have "ToastSuccess (c_id p) \<in> set (fst ?r)" by simp
  then show ?thesis
    unfolding es by (subst run_events_append) simp
qed

text \<open>
  C9, as the code has it. Start from any mount of the dashboard (whatever history the
  browser has stored) and let any sequence of renders, fetches and reloads follow. No
  toast is shown twice: each page gets at most one success toast and at most one error
  toast in the whole run, reloads included. The key of every toast shown is in the
  stored history at the end. A page that some finished render shows as COMPLETED with at
  least one link, not temporary, and whose completion the stored history did not already
  hold at the start, gets exactly one success toast.
\<close>

theorem C9_notified_once:
  "distinct (fst (run_events es (reload n0)))
   \<and> (\<forall>t \<in> set (fst (run_events es (reload n0))).
         \<exists>saved. localStorage (snd (run_events es (reload n0))) = Some saved
                \<and> toast_key t \<in> set saved)
   \<and> (Render pgs False \<in> set es \<longrightarrow> p \<in> set pgs \<longrightarrow> \<not> c_isTemporary p \<longrightarrow>
        c_status p = COMPLETED \<longrightarrow> 0 < c_linkCount p \<longrightarrow>
        pageKey (c_id p) COMPLETED \<notin> set (notifiedPages (reload n0)) \<longrightarrow>
          count_list (fst (run_events es (reload n0))) (ToastSuccess (c_id p)) = 1)"
proof -
  let ?ts = "fst (run_events es (reload n0))"
  let ?n = "snd (run_events es (reload n0))"
  from run_events_inv [OF initial_history, of n0 es]
  have inv: "history_inv (set (notifiedPages (reload n0))) ?ts ?n" by simp
  then have d: "distinct ?ts" by (simp add: history_inv_def)
  have stored: "\<exists>saved. localStorage ?n = Some saved \<and> toast_key t \<in> set saved"
    if "t \<in> set ?ts" for t
  proof -
    from inv that have k: "toast_key t \<in> set (notifiedPages ?n)"
      by (auto simp: history_inv_def)
    from inv have "in_step ?n" by (simp add: history_inv_def)
    with k show ?thesis by (cases "localStorage ?n") (auto simp: in_step_def)
  qed
  have once: "count_list ?ts (ToastSuccess (c_id p)) = 1"
    if "Render pgs False \<in> set es" "p \<in> set pgs" "\<not> c_isTemporary p"
      "c_status p = COMPLETED" "0 < c_linkCount p"
      "pageKey (c_id p) COMPLETED \<notin> set (notifiedPages (reload n0))"
    using success_shown [OF that] d by (simp add: count_list_distinct)
  from d stored once show ?thesis by blast
qed

theorem C9_notified_once_witness:
  "fst (run_events
         [Render [done_page 3, failed_page] False, Render [done_page 3, failed_page] False,
          Reload, Fetched, Render [done_page 3, failed_page] False] (reload fresh))
     = [ToastSuccess ''p1'', ToastError ''p2'']
   \<and> count_list (fst (run_events
         [Render [done_page 3, failed_page] False, Render [done_page 3, failed_page] False,
          Reload, Fetched, Render [done_page 3, failed_page] False] (reload fresh)))
        (ToastSuccess ''p1'') = 1"
proof -
  let ?es = "[Render [done_page 3, failed_page] False, Render [done_page 3, failed_page] False,
          Reload, Fetched, Render [done_page 3, failed_page] False]"
  have a: "Render [done_page 3, failed_page] False \<in> set ?es" by simp
  have b: "done_page 3 \<in> set [done_page 3, failed_page]" by simp
  have c: "\<not> c_isTemporary (done_page 3)" "c_status (done_page 3) = COMPLETED"
    "0 < c_linkCount (done_page 3)" "c_id (done_page 3) = ''p1''"
    by (simp_all add: done_page_def)
  have e: "pageKey (c_id (done_page 3)) COMPLETED \<notin> set (notifiedPages (reload fresh))"
    by (simp add: reload_def load_notified_def fresh_def)
  from C9_notified_once [of ?es fresh "[done_page 3, failed_page]" "done_page 3"] a b c e
  have one: "count_list (fst (run_events ?es (reload fresh))) (ToastSuccess ''p1'') = 1"
    by simp
  have ev: "fst (run_events ?es (reload fresh)) = [ToastSuccess ''p1'', ToastError ''p2'']"
    by (simp add: reload_def load_notified_def fresh_def notify_effect_def
        checkForCompletedJobs_def check_page_cases done_page_def failed_page_def pageKey_def
        status_str_def new_Set_def set_add_def)
  from one ev show ?thesis by simp
qed

text \<open>
  The claim as stated promises one "completed" notification for every page that reaches
  COMPLETED. A page that completes with no links gets none, however often it is polled.
\<close>

theorem C9_counterexample:
  "c_status (done_page 0) = COMPLETED
   \<and> count_list (fst (run_events
         [Render [done_page 0] False, Render [done_page 0] False, Reload,
          Render [done_page 0] False] (reload fresh)))
        (ToastSuccess ''p1'') = 0"
  by (simp add: reload_def load_notified_def fresh_def notify_effect_def
      checkForCompletedJobs_def check_page_cases done_page_def pageKey_def status_str_def)

section \<open>Which pages are announced\<close>

lemma check_page_success_origin:
  assumes "ToastSuccess i \<in> set (fst (check_page (ts, n) p))"
  shows "ToastSuccess i \<in> set ts
       \<or> (c_id p = i \<and> \<not> c_isTemporary p \<and> c_status p = COMPLETED \<and> 0 < c_linkCount p)"
  using assms by (auto simp: check_page_cases split: if_splits)

lemma foldl_check_page_success_origin:
  assumes "ToastSuccess i \<in> set (fst (foldl check_page (ts, n) pgs))"
  shows "ToastSuccess i \<in> set ts
       \<or> (\<exists>q \<in> set pgs. c_id q = i \<and> \<not> c_isTemporary q \<and> c_status q = COMPLETED
              \<and> 0 < c_linkCount q)"
  using assms
proof (induction pgs arbitrary: ts n)
  case Nil
  then show ?case by simp
next
  case (Cons p pgs)
  obtain ts1 n1 where c: "check_page (ts, n) p = (ts1, n1)" by (cases "check_page (ts, n) p")
  from Cons.prems have "ToastSuccess i \<in> set (fst (foldl check_page (ts1, n1) pgs))"
    by (simp add: c)
  from Cons.IH [OF this] check_page_success_origin [of i ts n p] show ?case
    by (auto simp: c)
qed

lemma run_events_success_origin:
  assumes "ToastSuccess i \<in> set (fst (run_events es n))"
  shows "\<exists>pgs q. Render pgs False \<in> set es \<and> q \<in> set pgs \<and> c_id q = i
           \<and> \<not> c_isTemporary q \<and> c_status q = COMPLETED \<and> 0 < c_linkCount q"
  using assms
proof (induction es arbitrary: n)
  case Nil
  then show ?case by simp
next
  case (Cons e es)
  from Cons.prems
  have "ToastSuccess i \<in> set (fst (step e n))
      \<or> ToastSuccess i \<in> set (fst (run_events es (snd (step e n))))"
    by (auto simp: case_prod_beta Let_def)
  then show ?case
  proof
    assume s: "ToastSuccess i \<in> set (fst (step e n))"
    show ?thesis
    proof (cases e)
      case (Render pgs loading)
      with s have l: "\<not> loading"
        and "ToastSuccess i \<in> set (fst (foldl check_page ([], n) pgs))"
        by (auto simp: notify_effect_def checkForCompletedJobs_def split: if_splits)
      from foldl_check_page_success_origin [OF this(2)] l Render show ?thesis by auto
    next
      case Fetched
      with s show ?thesis by simp
    next
      case Reload
      with s show ?thesis by simp
    qed
  next
    assume "ToastSuccess i \<in> set (fst (run_events es (snd (step e n))))"
    from Cons.IH [OF this] show ?thesis by auto
  qed
qed

text \<open>
  C10. A round of the loop on a page that is COMPLETED with linkCount 0 changes nothing:
  no toast, no entry in the history. Over any sequence of events from any state, a
  success toast for a page id is shown only if some finished render contained a page
  with that id that was not temporary, COMPLETED and had linkCount above 0. A FAILED
  page that is not temporary and not yet in the history gets its error toast whatever
  its linkCount.
\<close>

theorem C10_success_needs_links:
  "(c_status p = COMPLETED \<longrightarrow> c_linkCount p = 0 \<longrightarrow> check_page acc p = acc)
   \<and> (ToastSuccess i \<in> set (fst (run_events es n)) \<longrightarrow>
        (\<exists>pgs q. Render pgs False \<in> set es \<and> q \<in> set pgs \<and> c_id q = i
           \<and> \<not> c_isTemporary q \<and> c_status q = COMPLETED \<and> 0 < c_linkCount q))
   \<and> (\<not> c_isTemporary p \<longrightarrow> c_status p = FAILED \<longrightarrow>
        pageKey (c_id p) FAILED \<notin> set (notifiedPages n) \<longrightarrow>
          fst (check_page (ts, n) p) = ts @ [ToastError (c_id p)])"
proof (intro conjI impI)
  assume "c_status p = COMPLETED" "c_linkCount p = 0"
  then show "check_page acc p = acc"
    by (cases acc) (simp add: check_page_cases)
next
  assume "ToastSuccess i \<in> set (fst (run_events es n))"
  from run_events_success_origin [OF this]
  show "\<exists>pgs q. Render pgs False \<in> set es \<and> q \<in> set pgs \<and> c_id q = i
           \<and> \<not> c_isTemporary q \<and> c_status q = COMPLETED \<and> 0 < c_linkCount q" .
next
  assume "\<not> c_isTemporary p" "c_status p = FAILED"
    "pageKey (c_id p) FAILED \<notin> set (notifiedPages n)"
  then show "fst (check_page (ts, n) p) = ts @ [ToastError (c_id p)]"
    by (simp add: check_page_cases)
qed

theorem C10_success_needs_links_witness:
  "check_page ([], fresh) (done_page 0) = ([], fresh)
   \<and> fst (run_events [Render [done_page 0, done_page 2] False] fresh) = [ToastSuccess ''p1'']
   \<and> (\<exists>pgs q. Render pgs False \<in> set [Render [done_page 0, done_page 2] False]
          \<and> q \<in> set pgs \<and> c_id q = ''p1'' \<and> \<not> c_isTemporary q
          \<and> c_status q = COMPLETED \<and> 0 < c_linkCount q)
   \<and> fst (check_page ([], fresh) failed_page) = [ToastError ''p2'']"
proof -
  note t = C10_success_needs_links [of "done_page 0" "([], fresh)" "''p1''"
      "[Render [done_page 0, done_page 2] False]" fresh]
  note u = C10_success_needs_links [of failed_page "([], fresh)" "''p1''" "[]" fresh "[]"]
  have a: "check_page ([], fresh) (done_page 0) = ([], fresh)"
    using t by (simp add: done_page_def)
  have b: "fst (run_events [Render [done_page 0, done_page 2] False] fresh) = [ToastSuccess ''p1'']"
    by (simp add: fresh_def notify_effect_def checkForCompletedJobs_def check_page_cases
        done_page_def pageKey_def status_str_def)
  have c: "fst (check_page ([], fresh) failed_page) = [ToastError ''p2'']"
    using u by (simp add: failed_page_def fresh_def)
  have d: "\<exists>pgs q. Render pgs False \<in> set [Render [done_page 0, done_page 2] False]
          \<and> q \<in> set pgs \<and> c_id q = ''p1'' \<and> \<not> c_isTemporary q
          \<and> c_status q = COMPLETED \<and> 0 < c_linkCount q"
    using t b by simp
  from a b c d show ?thesis by simp
qed

end
